theory Spec2Isabelle
  imports Main "HOL-Library.Word" "HOL-Library.Multiset"
begin

section \<open>C library functions called by pdfio-file.c\<close>

text \<open>
  C strings are modelled as \<open>string\<close> (a list of 8-bit characters) without the closing NUL.
  The scanning functions below stop at the first character that is not part of a number,
  which is what they do at a NUL too.
\<close>

definition isdigit :: "char \<Rightarrow> bool" where
  "isdigit c = (48 \<le> (of_char c :: int) \<and> (of_char c :: int) \<le> 57)"

definition isspace :: "char \<Rightarrow> bool" where
  "isspace c = ((of_char c :: int) = 32 \<or> (9 \<le> (of_char c :: int) \<and> (of_char c :: int) \<le> 13))"

fun digits :: "int \<Rightarrow> string \<Rightarrow> int \<times> string" where
  "digits acc [] = (acc, [])"
| "digits acc (c # cs) =
     (if isdigit c then digits (acc * 10 + (of_char c - 48)) cs else (acc, c # cs))"

text \<open>\<open>intmax_t\<close>, \<open>long\<close> and \<open>off_t\<close> are 64-bit two's complement (LP64), \<open>int\<close> is
  32-bit, \<open>size_t\<close> is 64-bit unsigned, \<open>unsigned short\<close> is 16-bit. Their values are
  integers of HOL, and every cast and every \<open>size_t\<close> sum that can wrap around has its
  \<open>mod\<close> written out.\<close>

definition clamp_intmax :: "int \<Rightarrow> int" where
  "clamp_intmax v = max (- (2 ^ 63)) (min (2 ^ 63 - 1) v)"

definition scan_sign :: "string \<Rightarrow> bool \<times> string" where
  "scan_sign t =
     (case t of
        [] \<Rightarrow> (False, [])
      | c # cs \<Rightarrow> if c = CHR ''-'' then (True, cs) else if c = CHR ''+'' then (False, cs)
                 else (False, c # cs))"

text \<open>\<open>strtoimax(s, &ptr, 10)\<close>: the value and the rest of the string at \<open>ptr\<close>. Without a
  digit nothing is converted: the value is 0 and \<open>ptr\<close> is \<open>s\<close>.\<close>

definition strtoimax :: "string \<Rightarrow> int \<times> string" where
  "strtoimax s =
     (let (neg, u) = scan_sign (dropWhile isspace s)
      in case u of
           [] \<Rightarrow> (0, s)
         | c # cs \<Rightarrow>
             if isdigit c
             then (let (v, r) = digits 0 u in (clamp_intmax (if neg then - v else v), r))
             else (0, s))"

definition strtol :: "string \<Rightarrow> int \<times> string" where
  "strtol s = strtoimax s"

text \<open>The casts \<open>(int)\<close>, \<open>(size_t)\<close> and \<open>(unsigned short)\<close> of a 64-bit signed value, and
  the cast \<open>(intmax_t)\<close> of a 64-bit pattern.\<close>

definition int_cast :: "int \<Rightarrow> int" where
  "int_cast v = (v + 2 ^ 31) mod 2 ^ 32 - 2 ^ 31"

definition size_t_cast :: "int \<Rightarrow> int" where
  "size_t_cast v = v mod 2 ^ 64"

definition ushort_cast :: "int \<Rightarrow> int" where
  "ushort_cast v = v mod 2 ^ 16"

definition intmax_cast :: "int \<Rightarrow> int" where
  "intmax_cast n = (n + 2 ^ 63) mod 2 ^ 64 - 2 ^ 63"

text \<open>One \<open>%jd\<close> conversion of \<open>sscanf\<close>: blanks, a sign, at least one digit.\<close>

definition scan_jd :: "string \<Rightarrow> (int \<times> string) option" where
  "scan_jd s =
     (let (neg, u) = scan_sign (dropWhile isspace s)
      in case u of
           [] \<Rightarrow> None
         | c # cs \<Rightarrow>
             if isdigit c
             then (let (v, r) = digits 0 u in Some (clamp_intmax (if neg then - v else v), r))
             else None)"

text \<open>\<open>sscanf(line, "%jd%jd", &number, &num_objects)\<close>: \<open>Some\<close> when it returns 2.\<close>

definition sscanf_jd_jd :: "string \<Rightarrow> (int \<times> int) option" where
  "sscanf_jd_jd line =
     (case scan_jd line of
        None \<Rightarrow> None
      | Some (a, r) \<Rightarrow> (case scan_jd r of None \<Rightarrow> None | Some (b, r') \<Rightarrow> Some (a, b)))"

text \<open>\<open>strstr(s, needle)\<close>: the suffix of \<open>s\<close> at the first occurrence.\<close>

fun strstr :: "string \<Rightarrow> string \<Rightarrow> string option" where
  "strstr [] needle = (if needle = [] then Some [] else None)"
| "strstr (c # cs) needle =
     (if take (length needle) (c # cs) = needle then Some (c # cs) else strstr cs needle)"

text \<open>The number that a string of decimal digits denotes.\<close>

definition decimal :: "string \<Rightarrow> int" where
  "decimal ds = foldl (\<lambda>a c. a * 10 + (of_char c - 48)) 0 ds"

section \<open>Data model (pdfio-private.h, as pdfio-file.c uses it)\<close>

type_synonym byte = "8 word"

datatype pdfio_value =
    VNone
  | VNull
  | VBool bool
  | VNumber int
  | VName string
  | VString string
  | VArray "pdfio_value list"
  | VDict "(string \<times> pdfio_value) list"
  | VIndirect int int

type_synonym pdfio_dict = "(string \<times> pdfio_value) list"

text \<open>\<open>pdfio_obj_t\<close>. A record made by \<open>calloc\<close> has the value \<open>VNone\<close>.\<close>

record pdfio_obj =
  obj_number :: int
  obj_generation :: int
  obj_offset :: int
  obj_stream_offset :: int
  obj_value :: pdfio_value

text \<open>
  \<open>pdfio_file_t\<close>. Every \<open>pdfio_obj_t\<close> is a heap cell of its own and \<open>pdf->objs\<close> an array
  of pointers: \<open>pdf_heap\<close> holds the cells in allocation order, an address is an index into
  it, and \<open>pdf_objs\<close> is the pointer array (\<open>num_objs\<close> is its length). \<open>pdf_pos\<close> is the
  read position of the file. Two fields record effects: \<open>pdf_errors\<close> the calls of the error
  callback (the message formats, in order), \<open>pdf_streams\<close> the number of decode streams
  opened by \<open>pdfioObjOpenStream\<close> and not yet closed by \<open>pdfioStreamClose\<close>.
\<close>

record pdfio_file =
  pdf_version :: "string option"
  pdf_heap :: "pdfio_obj list"
  pdf_objs :: "nat list"
  pdf_trailer :: "pdfio_dict option"
  pdf_root :: "nat option"
  pdf_info :: "nat option"
  pdf_encrypt :: "nat option"
  pdf_id_array :: "pdfio_value list option"
  pdf_pages :: "nat list"
  pdf_pos :: int
  pdf_errors :: "string list"
  pdf_streams :: nat

definition calloc_file :: pdfio_file where
  "calloc_file =
     \<lparr>pdf_version = None, pdf_heap = [], pdf_objs = [], pdf_trailer = None, pdf_root = None,
      pdf_info = None, pdf_encrypt = None, pdf_id_array = None, pdf_pages = [], pdf_pos = 0,
      pdf_errors = [], pdf_streams = 0\<rparr>"

definition pdfioFileError :: "pdfio_file \<Rightarrow> string \<Rightarrow> pdfio_file" where
  "pdfioFileError pdf msg = pdf\<lparr>pdf_errors := pdf_errors pdf @ [msg]\<rparr>"

definition pdfioStreamClose :: "pdfio_file \<Rightarrow> pdfio_file" where
  "pdfioStreamClose pdf = pdf\<lparr>pdf_streams := pdf_streams pdf - 1\<rparr>"

definition stream_opened :: "pdfio_file \<Rightarrow> pdfio_file" where
  "stream_opened pdf = pdf\<lparr>pdf_streams := pdf_streams pdf + 1\<rparr>"

section \<open>The object index\<close>

text \<open>The object number behind a pointer of \<open>pdf->objs\<close>.\<close>

definition number_at :: "pdfio_obj list \<Rightarrow> nat \<Rightarrow> int" where
  "number_at heap a = obj_number (heap ! a)"

definition obj_numbers :: "pdfio_file \<Rightarrow> int list" where
  "obj_numbers pdf = map (number_at (pdf_heap pdf)) (pdf_objs pdf)"

definition compare_objs :: "pdfio_obj \<Rightarrow> pdfio_obj \<Rightarrow> int" where
  "compare_objs a b =
     (if obj_number a < obj_number b then - 1
      else if obj_number a = obj_number b then 0
      else 1)"

text \<open>\<open>qsort\<close> with \<open>compare_objs\<close>: the pointers in ascending order of object number. C leaves
  the order of pointers to equal numbers open; the model keeps their order.\<close>

definition qsort_objs :: "pdfio_obj list \<Rightarrow> nat list \<Rightarrow> nat list" where
  "qsort_objs heap ptrs = sort_key (number_at heap) ptrs"

text \<open>\<open>add_obj\<close>, lines 447-493: the new cell's address and the file. Allocation is taken to
  succeed.\<close>

definition add_obj :: "pdfio_file \<Rightarrow> int \<Rightarrow> int \<Rightarrow> int \<Rightarrow> nat \<times> pdfio_file" where
  "add_obj pdf num gen off =
     (let a = length (pdf_heap pdf);
          heap = pdf_heap pdf @
            [\<lparr>obj_number = num, obj_generation = gen, obj_offset = off,
              obj_stream_offset = 0, obj_value = VNone\<rparr>];
          ptrs = pdf_objs pdf @ [a];
          n = length ptrs
      in (a, pdf\<lparr>pdf_heap := heap,
                 pdf_objs := (if n > 1 \<and> number_at heap (ptrs ! (n - 2)) > num
                              then qsort_objs heap ptrs else ptrs)\<rparr>))"

text \<open>
  \<open>bsearch\<close> of the C library with \<open>compare_objs\<close>, on the pointers \<open>ptrs[l..u)\<close>: the key
  is compared with the middle element, and the search goes on in the lower or the upper
  half until the comparison gives 0 or the range is empty. On an array that holds several
  records of one number it returns the one that the search meets first.
\<close>

function bsearch_objs ::
  "pdfio_obj list \<Rightarrow> nat list \<Rightarrow> pdfio_obj \<Rightarrow> nat \<Rightarrow> nat \<Rightarrow> nat option"
where
  "bsearch_objs heap ptrs key l u =
     (if l < u
      then (let idx = (l + u) div 2;
                comparison = compare_objs key (heap ! (ptrs ! idx))
            in if comparison < 0 then bsearch_objs heap ptrs key l idx
               else if comparison > 0 then bsearch_objs heap ptrs key (idx + 1) u
               else Some (ptrs ! idx))
      else None)"
  by pat_completeness auto
termination
  by (relation "measure (\<lambda>(heap, ptrs, key, l, u). u - l)") auto

declare bsearch_objs.simps [simp del]

text \<open>\<open>pdfioFileFindObject\<close>, lines 235-255. Only the number of \<open>key\<close> is set, and only the
  number is read by \<open>compare_objs\<close>.\<close>

definition pdfioFileFindObject :: "pdfio_file \<Rightarrow> int \<Rightarrow> nat option" where
  "pdfioFileFindObject pdf num =
     (if length (pdf_objs pdf) > 0
      then bsearch_objs (pdf_heap pdf) (pdf_objs pdf)
             \<lparr>obj_number = num, obj_generation = 0, obj_offset = 0, obj_stream_offset = 0,
              obj_value = VNone\<rparr>
             0 (length (pdf_objs pdf))
      else None)"

definition pdfioFileGetNumObjects :: "pdfio_file \<Rightarrow> nat" where
  "pdfioFileGetNumObjects pdf = length (pdf_objs pdf)"

definition pdfioFileGetObject :: "pdfio_file \<Rightarrow> nat \<Rightarrow> pdfio_obj option" where
  "pdfioFileGetObject pdf n =
     (if n \<ge> length (pdf_objs pdf) then None else Some (pdf_heap pdf ! (pdf_objs pdf ! n)))"

definition pdfioFileGetVersion :: "pdfio_file \<Rightarrow> string option" where
  "pdfioFileGetVersion pdf = pdf_version pdf"

section \<open>External collaborators\<close>

text \<open>
  The byte source, the token reader, the value reader, the decode pipeline and the object
  loader are other files of the library. Their results enter the model as the fields of an
  environment. File operations are keyed by the read position: a result pairs what was read
  with the position after it. Decoding a stream or loading an object does read the file, but
  \<open>load_xref\<close> seeks before it reads the file again, so the model leaves \<open>pdf_pos\<close> alone
  there.

  \<^item> \<open>x_open\<close>: \<open>open(filename, O_RDONLY)\<close> succeeds;
  \<^item> \<open>x_seek\<close>: the result of \<open>_pdfioFileSeek(pdf, offset, SEEK_SET)\<close>;
  \<^item> \<open>x_gets\<close>: \<open>_pdfioFileGets\<close>, the line without its line end;
  \<^item> \<open>x_read\<close>: \<open>_pdfioFileRead\<close>, the bytes read (at most the number asked for);
  \<^item> \<open>x_tail\<close>: what \<open>_pdfioFileRead(pdf, line, 32)\<close> reads after the seek to 32 bytes
    before the end;
  \<^item> \<open>x_value\<close>, \<open>x_token\<close>, \<open>x_flush\<close>: \<open>_pdfioValueRead\<close>, \<open>_pdfioTokenGet\<close> and
    \<open>_pdfioTokenFlush\<close> on a token buffer that reads the file;
  \<^item> \<open>x_stream_bytes\<close>: \<open>pdfioObjOpenStream(obj, true)\<close> and the decoded bytes that
    \<open>pdfioStreamRead\<close> then delivers (\<open>None\<close>: the stream cannot be opened);
  \<^item> \<open>x_stream_tokens\<close>: \<open>pdfioObjOpenStream(obj, true)\<close> and the tokens that
    \<open>_pdfioTokenGet\<close> then delivers from the decoded stream;
  \<^item> \<open>x_parse\<close>: \<open>_pdfioValueRead\<close> on a token buffer that reads a decoded stream: the
    value and the tokens left;
  \<^item> \<open>x_load\<close>: the value the object loader reads for an object not yet loaded;
  \<^item> \<open>x_stack\<close>: the bytes found in the local \<open>buffer[32]\<close> of \<open>load_xref\<close> before the first
    read.
\<close>

record pdfio_ext =
  x_open :: bool
  x_seek :: "int \<Rightarrow> int"
  x_gets :: "int \<Rightarrow> (string \<times> int) option"
  x_read :: "int \<Rightarrow> nat \<Rightarrow> string"
  x_tail :: string
  x_value :: "int \<Rightarrow> (pdfio_value \<times> int) option"
  x_token :: "int \<Rightarrow> (string \<times> int) option"
  x_flush :: "int \<Rightarrow> int"
  x_stream_bytes :: "pdfio_obj \<Rightarrow> byte list option"
  x_stream_tokens :: "pdfio_obj \<Rightarrow> string list option"
  x_parse :: "string list \<Rightarrow> (pdfio_value \<times> string list) option"
  x_load :: "pdfio_obj \<Rightarrow> pdfio_value"
  x_stack :: "byte list"

text \<open>Modelled from the spec: the dictionary and array accessors of the library
  (\<open>pdfioDictGetArray\<close>, \<open>pdfioDictGetNumber\<close>, \<open>pdfioDictGetName\<close>, \<open>pdfioDictGetObject\<close>,
  \<open>pdfioArrayGetNumber\<close>, \<open>pdfioArrayGetObject\<close>, \<open>pdfioObjGetDict\<close>) are not in
  pdfio-file.c. Section 9 of the spec: they "encapsulate the tag check and return a sentinel
  (absence) on mismatch"; the sentinel of a number is 0. Numbers are integers here (the C
  type is \<open>double\<close>).\<close>

definition pdfioDictGetArray :: "pdfio_dict \<Rightarrow> string \<Rightarrow> pdfio_value list option" where
  "pdfioDictGetArray d k = (case map_of d k of Some (VArray vs) \<Rightarrow> Some vs | _ \<Rightarrow> None)"

definition pdfioDictGetNumber :: "pdfio_dict \<Rightarrow> string \<Rightarrow> int" where
  "pdfioDictGetNumber d k = (case map_of d k of Some (VNumber n) \<Rightarrow> n | _ \<Rightarrow> 0)"

definition pdfioDictGetName :: "pdfio_dict \<Rightarrow> string \<Rightarrow> string option" where
  "pdfioDictGetName d k = (case map_of d k of Some (VName s) \<Rightarrow> Some s | _ \<Rightarrow> None)"

definition pdfioArrayGetNumber :: "pdfio_value list \<Rightarrow> nat \<Rightarrow> int" where
  "pdfioArrayGetNumber vs i =
     (if i < length vs then (case vs ! i of VNumber n \<Rightarrow> n | _ \<Rightarrow> 0) else 0)"

definition value_object :: "pdfio_file \<Rightarrow> pdfio_value \<Rightarrow> nat option" where
  "value_object pdf v =
     (case v of VIndirect n g \<Rightarrow> pdfioFileFindObject pdf n | _ \<Rightarrow> None)"

definition pdfioDictGetObject :: "pdfio_file \<Rightarrow> pdfio_dict \<Rightarrow> string \<Rightarrow> nat option" where
  "pdfioDictGetObject pdf d k =
     (case map_of d k of Some v \<Rightarrow> value_object pdf v | None \<Rightarrow> None)"

definition pdfioArrayGetObject :: "pdfio_file \<Rightarrow> pdfio_value list \<Rightarrow> nat \<Rightarrow> nat option" where
  "pdfioArrayGetObject pdf vs i = (if i < length vs then value_object pdf (vs ! i) else None)"

definition pdfioObjGetDict :: "pdfio_ext \<Rightarrow> pdfio_file \<Rightarrow> nat \<Rightarrow> pdfio_dict option" where
  "pdfioObjGetDict E pdf a =
     (let obj = pdf_heap pdf ! a;
          v = (if obj_value obj = VNone then x_load E obj else obj_value obj)
      in case v of VDict d \<Rightarrow> Some d | _ \<Rightarrow> None)"

text \<open>A store through an object pointer: \<open>obj->value = v\<close> and \<open>obj->stream_offset = p\<close>.\<close>

definition set_value :: "pdfio_file \<Rightarrow> nat \<Rightarrow> pdfio_value \<Rightarrow> pdfio_file" where
  "set_value pdf a v = pdf\<lparr>pdf_heap := (pdf_heap pdf)[a := (pdf_heap pdf ! a)\<lparr>obj_value := v\<rparr>]\<rparr>"

definition set_stream_offset :: "pdfio_file \<Rightarrow> nat \<Rightarrow> int \<Rightarrow> pdfio_file" where
  "set_stream_offset pdf a p =
     pdf\<lparr>pdf_heap := (pdf_heap pdf)[a := (pdf_heap pdf ! a)\<lparr>obj_stream_offset := p\<rparr>]\<rparr>"

section \<open>load_obj_stream, lines 527-591\<close>

text \<open>
  Modelled from the spec: the token buffer on a decoded stream (\<open>_pdfioTokenGet\<close>,
  \<open>_pdfioTokenPush\<close>) is not in pdfio-file.c. Section 4.2: \<open>get_token\<close> returns one token,
  \<open>push_token\<close> pushes one back. The tokens still to come are a list; a \<open>_pdfioTokenGet\<close>
  that finds none returns false and leaves the empty string in the buffer.

  The first loop, lines 548-567: the result is the file and, unless the loop left the
  function for too many objects, the token in \<open>buffer\<close> after the loop, the tokens still to
  come and the pointers \<open>objs[0..num_objs)\<close>.
\<close>

fun read_numbers ::
  "pdfio_file \<Rightarrow> string list \<Rightarrow> nat list \<Rightarrow> pdfio_file \<times> (string \<times> string list \<times> nat list) option"
where
  "read_numbers pdf [] objs = (pdf, Some ([], [], objs))"
| "read_numbers pdf (t # ts) objs =
     (if \<not> (t \<noteq> [] \<and> isdigit (hd t)) then (pdf, Some (t, ts, objs))
      else if length objs \<ge> 1000
      then (pdfioFileError pdf ''Too many compressed objects in one stream.'', None)
      else (case add_obj pdf (size_t_cast (fst (strtoimax t))) 0 0 of
              (a, pdf') \<Rightarrow> read_numbers pdf' (tl ts) (objs @ [a])))"

text \<open>The second loop, lines 578-585.\<close>

fun read_values :: "pdfio_ext \<Rightarrow> pdfio_file \<Rightarrow> string list \<Rightarrow> nat list \<Rightarrow> bool \<times> pdfio_file" where
  "read_values E pdf toks [] = (True, pdf)"
| "read_values E pdf toks (a # as) =
     (case x_parse E toks of
        None \<Rightarrow> (False, pdf)
      | Some (v, toks') \<Rightarrow> read_values E (set_value pdf a v) toks' as)"

definition load_obj_stream :: "pdfio_ext \<Rightarrow> pdfio_file \<Rightarrow> nat \<Rightarrow> bool \<times> pdfio_file" where
  "load_obj_stream E pdf a =
     (case x_stream_tokens E (pdf_heap pdf ! a) of
        None \<Rightarrow> (False, pdfioFileError pdf ''Unable to open compressed object stream %lu.'')
      | Some toks \<Rightarrow>
          (case read_numbers (stream_opened pdf) toks [] of
             (pdf1, None) \<Rightarrow> (False, pdfioStreamClose pdf1)
           | (pdf1, Some (buffer, rest, objs)) \<Rightarrow>
               if buffer = [] then (False, pdfioStreamClose pdf1)
               else (case read_values E pdf1 (buffer # rest) objs of
                       (ok, pdf2) \<Rightarrow> (ok, pdfioStreamClose pdf2))))"

section \<open>What an object stream declares\<close>










text \<open>\<open>index_ok\<close>: every pointer of the index points into the heap and the object numbers
  do not decrease along the index. \<open>index_strict\<close>: moreover no number is there twice, so
  the numbers are strictly increasing.\<close>

definition index_ok :: "pdfio_file \<Rightarrow> bool" where
  "index_ok pdf =
     ((\<forall>a \<in> set (pdf_objs pdf). a < length (pdf_heap pdf)) \<and> sorted (obj_numbers pdf))"






text \<open>A set of object numbers whose records have not been loaded: their value is still the
  one that \<open>add_obj\<close> left.\<close>

definition unloaded :: "int set \<Rightarrow> pdfio_file \<Rightarrow> bool" where
  "unloaded N pdf = (\<forall>c \<in> set (pdf_heap pdf). obj_number c \<in> N \<longrightarrow> obj_value c = VNone)"

section \<open>load_xref: cross-reference streams, lines 699-892\<close>

text \<open>The test of line 697 for the line \<open>N G obj\<close>.\<close>

definition is_obj_line :: "string \<Rightarrow> bool" where
  "is_obj_line line =
     (line \<noteq> [] \<and> isdigit (hd line) \<and> length line > 4 \<and>
      drop (length line - 4) line = '' obj'')"

text \<open>Lines 767-779: the first object number. \<open>None\<close>: more than two elements in /Index.\<close>

definition xref_index :: "pdfio_dict \<Rightarrow> int option" where
  "xref_index d =
     (case pdfioDictGetArray d ''Index'' of
        Some index_array \<Rightarrow>
          if length index_array > 2 then None else Some (pdfioArrayGetNumber index_array 0)
      | None \<Rightarrow> Some 0)"

text \<open>Line 794, on \<open>size_t\<close> values: \<open>w_total\<close> is the sum modulo \<open>2 ^ 64\<close>, and
  \<open>sizeof(buffer)\<close> is 32.\<close>

definition w_total :: "int \<Rightarrow> int \<Rightarrow> int \<Rightarrow> int" where
  "w_total w0 w1 w2 = (w0 + w1 + w2) mod 2 ^ 64"

definition xref_w_invalid :: "int \<Rightarrow> int \<Rightarrow> int \<Rightarrow> bool" where
  "xref_w_invalid w0 w1 w2 = (w1 = 0 \<or> w2 > 2 \<or> w_total w0 w1 w2 > 32)"

text \<open>A read of \<open>buffer[i]\<close>; \<open>None\<close> outside the 32 bytes, where C gives no meaning.\<close>

definition buffer_at :: "byte list \<Rightarrow> int \<Rightarrow> int option" where
  "buffer_at buffer i =
     (if 0 \<le> i \<and> i < 32 \<and> nat i < length buffer then Some (uint (buffer ! nat i)) else None)"

text \<open>Lines 821-822: \<open>k\<close> more bytes from index \<open>idx\<close> shifted into \<open>offset\<close>, an
  \<open>intmax_t\<close> kept as its 64-bit pattern; the index is a \<open>size_t\<close>.\<close>

fun xref_shift :: "byte list \<Rightarrow> int \<Rightarrow> nat \<Rightarrow> int \<Rightarrow> int option" where
  "xref_shift buffer idx 0 acc = Some acc"
| "xref_shift buffer idx (Suc k) acc =
     (case buffer_at buffer idx of
        None \<Rightarrow> None
      | Some b \<Rightarrow> xref_shift buffer ((idx + 1) mod 2 ^ 64) k ((acc * 256 + b) mod 2 ^ 64))"

definition xref_offset_field :: "byte list \<Rightarrow> int \<Rightarrow> int \<Rightarrow> int option" where
  "xref_offset_field buffer w_2 w1 =
     (case buffer_at buffer w_2 of
        None \<Rightarrow> None
      | Some b \<Rightarrow> xref_shift buffer ((w_2 + 1) mod 2 ^ 64) (nat (w1 - 1)) b)"

text \<open>Lines 824-835.\<close>

definition xref_generation_field :: "byte list \<Rightarrow> int \<Rightarrow> int \<Rightarrow> int option" where
  "xref_generation_field buffer w_3 w2 =
     (if w2 = 1 then buffer_at buffer w_3
      else if w2 = 2
      then (case buffer_at buffer w_3 of
              None \<Rightarrow> None
            | Some b \<Rightarrow>
                (case buffer_at buffer ((w_3 + 1) mod 2 ^ 64) of
                   None \<Rightarrow> None
                 | Some c \<Rightarrow> Some (b * 256 + c)))
      else Some 0)"

text \<open>Lines 856-863: the parents still to load, \<open>sobjs[0..num_sobjs)\<close>.\<close>

definition enqueue_sobj :: "int list \<Rightarrow> int \<Rightarrow> int list" where
  "enqueue_sobj sobjs parent =
     (if parent \<notin> set sobjs \<and> length sobjs < 1000 then sobjs @ [parent] else sobjs)"

text \<open>No parent is queued twice, and at most 1000 are queued.\<close>

definition queue_ok :: "int list \<Rightarrow> bool" where
  "queue_ok sobjs = (distinct sobjs \<and> length sobjs \<le> 1000)"

text \<open>
  The body of the loop of lines 806-870, after a read that filled \<open>buffer\<close>. \<open>None\<close>: a read
  outside \<open>buffer\<close>. \<open>Some (True, sobjs, pdf)\<close>: the loop goes on, and \<open>number\<close> is one more
  on every such path. \<open>Some (False, sobjs, pdf)\<close>: \<open>return (false)\<close> from inside the loop.
\<close>

definition xref_record ::
  "pdfio_ext \<Rightarrow> int \<Rightarrow> int \<Rightarrow> int \<Rightarrow> byte list \<Rightarrow> int \<Rightarrow> int list \<Rightarrow> pdfio_file
    \<Rightarrow> (bool \<times> int list \<times> pdfio_file) option"
where
  "xref_record E w0 w1 w2 buffer number sobjs pdf =
     (if w0 > 0 \<and> buffer_at buffer 0 = Some 0 then Some (True, sobjs, pdf)
      else
        (case xref_offset_field buffer w0 w1 of
           None \<Rightarrow> None
         | Some offset \<Rightarrow>
             (case xref_generation_field buffer ((w0 + w1) mod 2 ^ 64) w2 of
                None \<Rightarrow> None
              | Some generation \<Rightarrow>
                  if pdfioFileFindObject pdf (size_t_cast number) \<noteq> None
                  then Some (True, sobjs, pdf)
                  else if w0 > 0 \<and> buffer_at buffer 0 = Some 2
                  then (case pdfioFileFindObject pdf offset of
                          Some obj \<Rightarrow>
                            (case load_obj_stream E pdf obj of
                               (ok, pdf') \<Rightarrow> Some (ok, sobjs, pdf'))
                        | None \<Rightarrow> Some (True, enqueue_sobj sobjs offset, pdf))
                  else Some (True, sobjs,
                         snd (add_obj pdf (size_t_cast number) (ushort_cast generation)
                                (intmax_cast offset))))))"

text \<open>
  Modelled from the spec: \<open>pdfioStreamRead\<close> is not in pdfio-file.c. Section 6: the decode
  pipeline gives "a read-only byte view with read(n) semantics". A read takes the next
  \<open>w_total\<close> decoded bytes, fewer at the end, and stores them at the start of \<open>buffer\<close>.

  The loop of lines 806-870 over the decoded bytes \<open>st\<close> still to come.
\<close>

function xref_records ::
  "pdfio_ext \<Rightarrow> int \<Rightarrow> int \<Rightarrow> int \<Rightarrow> byte list \<Rightarrow> byte list \<Rightarrow> int \<Rightarrow> int list \<Rightarrow> pdfio_file
    \<Rightarrow> (bool \<times> int list \<times> pdfio_file) option"
where
  "xref_records E w0 w1 w2 st buffer number sobjs pdf =
     (if take (nat (w_total w0 w1 w2)) st = [] then Some (True, sobjs, pdf)
      else
        (case xref_record E w0 w1 w2
                (take (nat (w_total w0 w1 w2)) st @ drop (length (take (nat (w_total w0 w1 w2)) st)) buffer)
                number sobjs pdf of
           None \<Rightarrow> None
         | Some (ok, sobjs', pdf') \<Rightarrow>
             if ok
             then xref_records E w0 w1 w2 (drop (nat (w_total w0 w1 w2)) st)
                    (take (nat (w_total w0 w1 w2)) st @ drop (length (take (nat (w_total w0 w1 w2)) st)) buffer)
                    (number + 1) sobjs' pdf'
             else Some (False, sobjs', pdf')))"
  by pat_completeness auto
termination
  by (relation "measure (\<lambda>(E, w0, w1, w2, st, buffer, number, sobjs, pdf). length st)") auto

declare xref_records.simps [simp del]

text \<open>Lines 877-891.\<close>

fun load_sobjs :: "pdfio_ext \<Rightarrow> pdfio_file \<Rightarrow> int list \<Rightarrow> bool \<times> pdfio_file" where
  "load_sobjs E pdf [] = (True, pdf)"
| "load_sobjs E pdf (s # ss) =
     (case pdfioFileFindObject pdf s of
        Some obj \<Rightarrow>
          (case load_obj_stream E pdf obj of
             (ok, pdf') \<Rightarrow> if ok then load_sobjs E pdf' ss else (False, pdf'))
      | None \<Rightarrow> (False, pdfioFileError pdf ''Unable to find compressed object stream %lu.''))"

text \<open>Lines 767-891, with \<open>obj\<close> the cross-reference stream object and \<open>d\<close> its dictionary.
  \<open>None\<close>: a read outside \<open>buffer\<close>; otherwise whether the section was loaded, and the
  file. A \<open>return (false)\<close> from inside the loop of lines 806-870 leaves before line 872 closes
  the stream.\<close>

definition xref_stream_body ::
  "pdfio_ext \<Rightarrow> pdfio_file \<Rightarrow> nat \<Rightarrow> pdfio_dict \<Rightarrow> (bool \<times> pdfio_file) option"
where
  "xref_stream_body E pdf obj d =
     (case xref_index d of
        None \<Rightarrow>
          Some (False,
            pdfioFileError pdf ''Multiple indices not supported in cross-reference stream.'')
      | Some number \<Rightarrow>
          (case pdfioDictGetArray d ''W'' of
             None \<Rightarrow>
               Some (False,
                 pdfioFileError pdf ''Cross-reference stream does not have required W key.'')
           | Some w_array \<Rightarrow>
               (let w0 = size_t_cast (pdfioArrayGetNumber w_array 0);
                    w1 = size_t_cast (pdfioArrayGetNumber w_array 1);
                    w2 = size_t_cast (pdfioArrayGetNumber w_array 2)
                in if xref_w_invalid w0 w1 w2
                   then Some (False,
                          pdfioFileError pdf ''Cross-reference stream has invalid W key.'')
                   else
                     (case x_stream_bytes E (pdf_heap pdf ! obj) of
                        None \<Rightarrow>
                          Some (False,
                            pdfioFileError pdf ''Unable to open cross-reference stream.'')
                      | Some st \<Rightarrow>
                          (case xref_records E w0 w1 w2 st
                                  (take 32 (x_stack E @ replicate 32 0)) number []
                                  (stream_opened pdf) of
                             None \<Rightarrow> None
                           | Some (ok, sobjs, pdf1) \<Rightarrow>
                               if ok then Some (load_sobjs E (pdfioStreamClose pdf1) sobjs)
                               else Some (False, pdf1))))))"

text \<open>Lines 699-765 and then the body above: the section at \<open>xref_offset\<close> whose first line
  is \<open>line\<close>. The result pairs the file with the section's trailer dictionary, \<open>None\<close> after
  \<open>return (false)\<close>.\<close>

definition load_xref_stream ::
  "pdfio_ext \<Rightarrow> pdfio_file \<Rightarrow> string \<Rightarrow> int \<Rightarrow> (pdfio_file \<times> pdfio_dict option) option"
where
  "load_xref_stream E pdf line xref_offset =
     (case strtoimax line of
        (number, ptr) \<Rightarrow>
          if number < 1 then Some (pdfioFileError pdf ''Bad xref table header '%s'.'', None)
          else
            (case strtol ptr of
               (g, ptr') \<Rightarrow>
                 if int_cast g < 0 \<or> int_cast g > 65535
                 then Some (pdfioFileError pdf ''Bad xref table header '%s'.'', None)
                 else if dropWhile isspace ptr' \<noteq> ''obj''
                 then Some (pdfioFileError pdf ''Bad xref table header '%s'.'', None)
                 else
                   (case add_obj pdf (size_t_cast number) (ushort_cast (int_cast g)) xref_offset of
                      (obj, pdf1) \<Rightarrow>
                        (case x_value E (pdf_pos pdf1) of
                           None \<Rightarrow>
                             Some (pdfioFileError pdf1
                               ''Unable to read cross-reference stream dictionary.'', None)
                         | Some (trailer, p1) \<Rightarrow>
                             (case trailer of
                                VDict d \<Rightarrow>
                                  (case x_token E p1 of
                                     None \<Rightarrow>
                                       Some (pdfioFileError
                                         (set_value (pdf1\<lparr>pdf_pos := p1\<rparr>) obj trailer)
                                         ''Unable to get stream after xref dictionary.'', None)
                                   | Some (tok, p2) \<Rightarrow>
                                       if tok \<noteq> ''stream''
                                       then Some (pdfioFileError
                                         (set_value (pdf1\<lparr>pdf_pos := p2\<rparr>) obj trailer)
                                         ''Unable to get stream after xref dictionary.'', None)
                                       else
                                         (case xref_stream_body E
                                                 (set_stream_offset
                                                    (set_value (pdf1\<lparr>pdf_pos := x_flush E p2\<rparr>)
                                                       obj trailer)
                                                    obj (x_flush E p2))
                                                 obj d of
                                            None \<Rightarrow> None
                                          | Some (ok, pdf2) \<Rightarrow>
                                              Some (pdf2, if ok then Some d else None)))
                              | _ \<Rightarrow>
                                  Some (pdfioFileError (pdf1\<lparr>pdf_pos := p1\<rparr>)
                                    ''Cross-reference stream does not have a dictionary.'',
                                    None))))))"

section \<open>load_xref: classical tables, lines 893-981\<close>

text \<open>Lines 916-947 on the 20 bytes of an entry: the offset, the generation and the type
  character, \<open>None\<close> where the code reports a malformed entry.\<close>

definition parse_xref_entry :: "string \<Rightarrow> (int \<times> int \<times> char) option" where
  "parse_xref_entry line =
     (if drop 18 line \<noteq> [CHR 0x0D, CHR 0x0A] \<and> drop 18 line \<noteq> [CHR '' '', CHR 0x0A] \<and>
         drop 18 line \<noteq> [CHR '' '', CHR 0x0D]
      then None
      else
        (case strtoimax (take 18 line) of
           (offset, ptr) \<Rightarrow>
             if offset < 0 then None
             else
               (case strtol ptr of
                  (g, ptr') \<Rightarrow>
                    if int_cast g < 0 \<or> int_cast g > 65535 then None
                    else
                      (case ptr' of
                         [] \<Rightarrow> None
                       | c # r \<Rightarrow>
                           if c \<noteq> CHR '' '' then None
                           else
                             (case r of
                                [] \<Rightarrow> None
                              | t # r' \<Rightarrow>
                                  if t \<noteq> CHR ''f'' \<and> t \<noteq> CHR ''n'' then None
                                  else Some (offset, int_cast g, t))))))"

text \<open>One round of the loop of lines 908-958: whether the loop goes on (\<open>False\<close>:
  \<open>return (false)\<close>), and the file.\<close>

definition xref_entry :: "pdfio_ext \<Rightarrow> pdfio_file \<Rightarrow> int \<Rightarrow> bool \<times> pdfio_file" where
  "xref_entry E pdf number =
     (let line = take 20 (x_read E (pdf_pos pdf) 20);
          pdf1 = pdf\<lparr>pdf_pos := pdf_pos pdf + int (length line)\<rparr>
      in if length line \<noteq> 20 then (False, pdf1)
         else
           (case parse_xref_entry line of
              None \<Rightarrow> (False, pdfioFileError pdf1 ''Malformed xref table entry '%s'.'')
            | Some (offset, generation, t) \<Rightarrow>
                if t = CHR ''f'' then (True, pdf1)
                else if pdfioFileFindObject pdf1 (size_t_cast number) \<noteq> None then (True, pdf1)
                else (True,
                  snd (add_obj pdf1 (size_t_cast number) (ushort_cast generation) offset))))"

fun xref_entries :: "nat \<Rightarrow> pdfio_ext \<Rightarrow> pdfio_file \<Rightarrow> int \<Rightarrow> bool \<times> pdfio_file" where
  "xref_entries 0 E pdf number = (True, pdf)"
| "xref_entries (Suc k) E pdf number =
     (case xref_entry E pdf number of
        (ok, pdf') \<Rightarrow> if ok then xref_entries k E pdf' (number + 1) else (False, pdf'))"

text \<open>
  The loop of lines 896-959 and the test of lines 961-965. The loop ends when
  \<open>_pdfioFileGets\<close> reads no line; the file decides that, so the model counts the rounds
  down from \<open>fuel\<close>, and \<open>None\<close> says the loop was still running. A failed \<open>_pdfioFileGets\<close>
  is taken to leave no line \<open>trailer\<close> in the buffer.
\<close>

primrec xref_subsections :: "nat \<Rightarrow> pdfio_ext \<Rightarrow> pdfio_file \<Rightarrow> (bool \<times> pdfio_file) option" where
  "xref_subsections 0 E pdf = None"
| "xref_subsections (Suc fuel) E pdf =
     (case x_gets E (pdf_pos pdf) of
        None \<Rightarrow> Some (False, pdfioFileError pdf ''Missing trailer.'')
      | Some (line, p) \<Rightarrow>
          if line = ''trailer'' then Some (True, pdf\<lparr>pdf_pos := p\<rparr>)
          else
            (case sscanf_jd_jd line of
               None \<Rightarrow>
                 Some (False,
                   pdfioFileError (pdf\<lparr>pdf_pos := p\<rparr>) ''Malformed xref table section '%s'.'')
             | Some (number, num_objects) \<Rightarrow>
                 (case xref_entries (nat num_objects) E (pdf\<lparr>pdf_pos := p\<rparr>) number of
                    (ok, pdf') \<Rightarrow>
                      if ok then xref_subsections fuel E pdf' else Some (False, pdf'))))"

definition load_xref_table ::
  "nat \<Rightarrow> pdfio_ext \<Rightarrow> pdfio_file \<Rightarrow> (pdfio_file \<times> pdfio_dict option) option"
where
  "load_xref_table fuel E pdf =
     (case xref_subsections fuel E pdf of
        None \<Rightarrow> None
      | Some (ok, pdf1) \<Rightarrow>
          if \<not> ok then Some (pdf1, None)
          else
            (case x_value E (pdf_pos pdf1) of
               None \<Rightarrow> Some (pdfioFileError pdf1 ''Unable to read trailer dictionary.'', None)
             | Some (trailer, p) \<Rightarrow>
                 (case trailer of
                    VDict d \<Rightarrow> Some (pdf1\<lparr>pdf_pos := x_flush E p\<rparr>, Some d)
                  | _ \<Rightarrow>
                      Some (pdfioFileError (pdf1\<lparr>pdf_pos := p\<rparr>) ''Trailer is not a dictionary.'',
                        None))))"

section \<open>load_xref: the chain of sections, lines 681-1002\<close>

text \<open>One round of the loop up to line 986: the section at \<open>xref_offset\<close>.\<close>

definition load_xref_section ::
  "nat \<Rightarrow> pdfio_ext \<Rightarrow> pdfio_file \<Rightarrow> int \<Rightarrow> (pdfio_file \<times> pdfio_dict option) option"
where
  "load_xref_section fuel E pdf xref_offset =
     (if x_seek E xref_offset \<noteq> xref_offset
      then Some (pdfioFileError pdf ''Unable to seek to start of xref table.'', None)
      else
        (case x_gets E xref_offset of
           None \<Rightarrow>
             Some (pdfioFileError (pdf\<lparr>pdf_pos := xref_offset\<rparr>)
               ''Unable to read start of xref table.'', None)
         | Some (line, p) \<Rightarrow>
             if is_obj_line line then load_xref_stream E (pdf\<lparr>pdf_pos := p\<rparr>) line xref_offset
             else if line = ''xref'' then load_xref_table fuel E (pdf\<lparr>pdf_pos := p\<rparr>)
             else Some (pdfioFileError (pdf\<lparr>pdf_pos := p\<rparr>) ''Bad xref table header '%s'.'',
                    None)))"

text \<open>Lines 993-998.\<close>

definition save_trailer :: "pdfio_file \<Rightarrow> pdfio_dict \<Rightarrow> pdfio_file" where
  "save_trailer pdf trailer =
     (if pdf_trailer pdf = None then pdf\<lparr>pdf_trailer := Some trailer\<rparr> else pdf)"

text \<open>The loop \<open>while (!done)\<close>. A chain of /Prev entries can lead back to a section already
  read, so the rounds are counted down from \<open>fuel\<close>; \<open>None\<close> says the loop was still
  running (or a read outside \<open>buffer\<close> happened).\<close>

primrec load_xref_chain ::
  "nat \<Rightarrow> pdfio_ext \<Rightarrow> pdfio_file \<Rightarrow> int \<Rightarrow> (bool \<times> pdfio_file) option"
where
  "load_xref_chain 0 E pdf xref_offset = None"
| "load_xref_chain (Suc fuel) E pdf xref_offset =
     (case load_xref_section (Suc fuel) E pdf xref_offset of
        None \<Rightarrow> None
      | Some (pdf1, None) \<Rightarrow> Some (False, pdf1)
      | Some (pdf1, Some trailer) \<Rightarrow>
          if pdfioDictGetNumber trailer ''Prev'' \<le> 0
          then Some (True, save_trailer pdf1 trailer)
          else load_xref_chain fuel E (save_trailer pdf1 trailer)
                 (pdfioDictGetNumber trailer ''Prev''))"

text \<open>The sections that the loop reads, in the order read: the offset of each and its trailer
  dictionary. The list ends with the section whose trailer ends the loop, or before a section
  that cannot be read.\<close>

primrec xref_walk :: "nat \<Rightarrow> pdfio_ext \<Rightarrow> pdfio_file \<Rightarrow> int \<Rightarrow> (int \<times> pdfio_dict) list" where
  "xref_walk 0 E pdf xref_offset = []"
| "xref_walk (Suc fuel) E pdf xref_offset =
     (case load_xref_section (Suc fuel) E pdf xref_offset of
        Some (pdf1, Some trailer) \<Rightarrow>
          (xref_offset, trailer) #
            (if pdfioDictGetNumber trailer ''Prev'' \<le> 0 then []
             else xref_walk fuel E (save_trailer pdf1 trailer)
                    (pdfioDictGetNumber trailer ''Prev''))
      | _ \<Rightarrow> [])"

text \<open>The words of the spec, "the trailer at the highest byte offset encountered on the
  chain": of the sections read, the trailer of the one at the highest offset.\<close>

definition trailer_at_highest :: "(int \<times> pdfio_dict) list \<Rightarrow> pdfio_dict option" where
  "trailer_at_highest walk =
     (case walk of
        [] \<Rightarrow> None
      | s # ss \<Rightarrow> Some (snd (fold (\<lambda>x best. if fst x > fst best then x else best) ss s)))"

section \<open>load_pages, lines 598-659\<close>

text \<open>The loop of lines 632-636 over the elements of /Kids, with \<open>f\<close> the call of
  \<open>load_pages\<close>.\<close>

fun load_kids ::
  "(pdfio_file \<Rightarrow> nat option \<Rightarrow> (bool \<times> pdfio_file) option) \<Rightarrow> pdfio_file \<Rightarrow> pdfio_value list
    \<Rightarrow> (bool \<times> pdfio_file) option"
where
  "load_kids f pdf [] = Some (True, pdf)"
| "load_kids f pdf (k # ks) =
     (case f pdf (value_object pdf k) of
        None \<Rightarrow> None
      | Some (ok, pdf') \<Rightarrow> if ok then load_kids f pdf' ks else Some (False, pdf'))"

text \<open>A /Kids array can name an ancestor, so the depth of the recursion is counted down
  from \<open>fuel\<close>.\<close>

primrec load_pages ::
  "nat \<Rightarrow> pdfio_ext \<Rightarrow> pdfio_file \<Rightarrow> nat option \<Rightarrow> (bool \<times> pdfio_file) option"
where
  "load_pages 0 E pdf obj = None"
| "load_pages (Suc fuel) E pdf obj =
     (case obj of
        None \<Rightarrow> Some (False, pdfioFileError pdf ''Unable to find pages object.'')
      | Some a \<Rightarrow>
          (case pdfioObjGetDict E pdf a of
             None \<Rightarrow> Some (False, pdfioFileError pdf ''No dictionary for pages object.'')
           | Some dict \<Rightarrow>
               (case pdfioDictGetName dict ''Type'' of
                  None \<Rightarrow> Some (False, pdf)
                | Some t \<Rightarrow>
                    if t \<noteq> ''Pages'' \<and> t \<noteq> ''Page'' then Some (False, pdf)
                    else
                      (case pdfioDictGetArray dict ''Kids'' of
                         Some kids \<Rightarrow> load_kids (load_pages fuel E) pdf kids
                       | None \<Rightarrow> Some (True, pdf\<lparr>pdf_pages := pdf_pages pdf @ [a]\<rparr>)))))"

section \<open>load_xref and pdfioFileOpen\<close>

text \<open>Lines 1004-1018, after the loop.\<close>

definition load_xref_finish :: "nat \<Rightarrow> pdfio_ext \<Rightarrow> pdfio_file \<Rightarrow> (bool \<times> pdfio_file) option" where
  "load_xref_finish fuel E pdf =
     (let trailer = (case pdf_trailer pdf of Some d \<Rightarrow> d | None \<Rightarrow> [])
      in case pdfioDictGetObject pdf trailer ''Root'' of
           None \<Rightarrow> Some (False, pdfioFileError pdf ''Missing Root object.'')
         | Some root \<Rightarrow>
             (let pdf1 = pdf\<lparr>pdf_root := Some root,
                              pdf_info := pdfioDictGetObject pdf trailer ''Info'',
                              pdf_encrypt := pdfioDictGetObject pdf trailer ''Encrypt'',
                              pdf_id_array := pdfioDictGetArray trailer ''ID''\<rparr>
              in load_pages fuel E pdf1
                   (case pdfioObjGetDict E pdf1 root of
                      None \<Rightarrow> None
                    | Some d \<Rightarrow> pdfioDictGetObject pdf1 d ''Pages'')))"

definition load_xref :: "nat \<Rightarrow> pdfio_ext \<Rightarrow> pdfio_file \<Rightarrow> int \<Rightarrow> (bool \<times> pdfio_file) option" where
  "load_xref fuel E pdf xref_offset =
     (case load_xref_chain fuel E pdf xref_offset of
        None \<Rightarrow> None
      | Some (ok, pdf1) \<Rightarrow> if ok then load_xref_finish fuel E pdf1 else Some (False, pdf1))"

text \<open>
  What \<open>pdfioFileOpen\<close> returns: the file, or \<open>NULL\<close>. With \<open>NULL\<close> the model keeps what
  the caller can observe of the failed call: the reports made through the error callback,
  and the number of decode streams that were still open when \<open>load_xref\<close> returned
  (\<open>pdfioFileClose\<close> frees the file and closes the descriptor; it closes no stream).
\<close>

datatype open_result = Handle pdfio_file | Null "string list" nat

definition pdfioFileClose :: "pdfio_file \<Rightarrow> open_result" where
  "pdfioFileClose pdf = Null (pdf_errors pdf) (pdf_streams pdf)"

text \<open>The test of line 401.\<close>

definition bad_header :: "string \<Rightarrow> bool" where
  "bad_header line =
     ((take 7 line \<noteq> ''%PDF-1.'' \<and> take 7 line \<noteq> ''%PDF-2.'') \<or>
      \<not> (length line > 7 \<and> isdigit (line ! 7)))"

text \<open>\<open>pdfioFileOpen\<close>, lines 349-440, for a file name that is not \<open>NULL\<close>; allocation is
  taken to succeed. \<open>None\<close>: a loop of \<open>load_xref\<close> was still running when the fuel ran
  out.\<close>

definition pdfioFileOpen :: "nat \<Rightarrow> pdfio_ext \<Rightarrow> open_result option" where
  "pdfioFileOpen fuel E =
     (if \<not> x_open E then Some (Null [''Unable to open file - %s''] 0)
      else
        (case x_gets E 0 of
           None \<Rightarrow> Some (pdfioFileClose calloc_file)
         | Some (line, p) \<Rightarrow>
             if bad_header line
             then Some (pdfioFileClose
                          (pdfioFileError (calloc_file\<lparr>pdf_pos := p\<rparr>) ''Bad header '%s'.''))
             else if length (x_tail E) < 32
             then Some (pdfioFileClose
                          (pdfioFileError (calloc_file\<lparr>pdf_version := Some (drop 5 line)\<rparr>)
                             ''Unable to read startxref data.''))
             else
               (case strstr (takeWhile (\<lambda>c. c \<noteq> CHR 0x00) (take 32 (x_tail E))) ''startxref'' of
                  None \<Rightarrow>
                    Some (pdfioFileClose
                            (pdfioFileError (calloc_file\<lparr>pdf_version := Some (drop 5 line)\<rparr>)
                               ''Unable to find start of xref table.''))
                | Some ptr \<Rightarrow>
                    (case load_xref fuel E (calloc_file\<lparr>pdf_version := Some (drop 5 line)\<rparr>)
                            (fst (strtol (drop 9 ptr))) of
                       None \<Rightarrow> None
                     | Some (ok, pdf) \<Rightarrow>
                         if ok then Some (Handle pdf) else Some (pdfioFileClose pdf)))))"

text \<open>The file behind an open that succeeded.\<close>

definition opened :: "open_result option \<Rightarrow> pdfio_file option" where
  "opened r = (case r of Some (Handle pdf) \<Rightarrow> Some pdf | _ \<Rightarrow> None)"

section \<open>Example files\<close>

definition lf :: string where
  "lf = [CHR 0x0A]"

text \<open>
  A file of one revision with a classical table: header \<open>%PDF-1.4\<close>, the catalog (object 1)
  at offset 9, the page tree (object 2) at 60, a page (object 3) at 120, the table at 200
  with one subsection \<open>0 4\<close> of four 20-byte entries, the trailer
  \<open><< /Size 4 /Root 1 0 R >>\<close> and \<open>startxref 200\<close>.
\<close>

definition classic_load :: "pdfio_obj \<Rightarrow> pdfio_value" where
  "classic_load obj =
     (if obj_number obj = 1
      then VDict [(''Type'', VName ''Catalog''), (''Pages'', VIndirect 2 0)]
      else if obj_number obj = 2
      then VDict [(''Type'', VName ''Pages''), (''Kids'', VArray [VIndirect 3 0]),
                  (''Count'', VNumber 1)]
      else if obj_number obj = 3
      then VDict [(''Type'', VName ''Page''), (''Parent'', VIndirect 2 0)]
      else VNull)"

definition classic_file :: pdfio_ext where
  "classic_file =
     \<lparr>x_open = True,
      x_seek = (\<lambda>off. off),
      x_gets = (\<lambda>p. if p = 0 then Some (''%PDF-1.4'', 9)
                     else if p = 200 then Some (''xref'', 205)
                     else if p = 205 then Some (''0 4'', 209)
                     else if p = 289 then Some (''trailer'', 297)
                     else None),
      x_read = (\<lambda>p n. if p = 209 then ''0000000000 65535 f '' @ lf
                       else if p = 229 then ''0000000009 00000 n '' @ lf
                       else if p = 249 then ''0000000060 00000 n '' @ lf
                       else if p = 269 then ''0000000120 00000 n '' @ lf
                       else []),
      x_tail = ''ot 1 0 R >>'' @ lf @ ''startxref'' @ lf @ ''200'' @ lf @ ''%%EOF'' @ lf,
      x_value = (\<lambda>p. if p = 297
                      then Some (VDict [(''Size'', VNumber 4), (''Root'', VIndirect 1 0)], 326)
                      else None),
      x_token = (\<lambda>p. None),
      x_flush = (\<lambda>p. p + 1),
      x_stream_bytes = (\<lambda>obj. None),
      x_stream_tokens = (\<lambda>obj. None),
      x_parse = (\<lambda>ts. None),
      x_load = classic_load,
      x_stack = []\<rparr>"

text \<open>The same file cut off after 11 bytes of the last entry of the table, and the same file
  with an object 2 that is a font and no page tree.\<close>

definition truncated_file :: pdfio_ext where
  "truncated_file =
     classic_file\<lparr>x_read := (\<lambda>p n. if p = 269 then ''0000000120 ''
                                    else x_read classic_file p n)\<rparr>"

definition wrong_pages_file :: pdfio_ext where
  "wrong_pages_file =
     classic_file\<lparr>x_load := (\<lambda>obj. if obj_number obj = 2 then VDict [(''Type'', VName ''Font'')]
                                    else classic_load obj)\<rparr>"

text \<open>
  A file of two revisions, both with cross-reference streams. The first revision has the
  object stream 1 at offset 20, which holds the catalog (object 2), the page tree (object 3)
  and object 5, and the cross-reference stream 4 at offset 400 with /W [1 2 1] and the
  records free, (1, 20, 0), (2, 1, 0), (2, 1, 1), (1, 400, 0), (2, 1, 2) for the objects
  0 to 5. The second revision replaces object 5 by an object of its own at offset 600; its
  cross-reference stream is object 6 at offset 900 with /Index [5 2], /Prev 400 and the
  records (1, 600, 0), (1, 900, 0). \<open>startxref\<close> is 900.
\<close>

definition two_rev_parse :: "string list \<Rightarrow> (pdfio_value \<times> string list) option" where
  "two_rev_parse ts =
     (if take 8 ts = [''<<'', ''/Type'', ''/Catalog'', ''/Pages'', ''3'', ''0'', ''R'', ''>>'']
      then Some (VDict [(''Type'', VName ''Catalog''), (''Pages'', VIndirect 3 0)], drop 8 ts)
      else if take 4 ts = [''<<'', ''/Type'', ''/Pages'', ''>>'']
      then Some (VDict [(''Type'', VName ''Pages'')], drop 4 ts)
      else if take 4 ts = [''<<'', ''/Title'', ''(old)'', ''>>'']
      then Some (VDict [(''Title'', VString ''old'')], drop 4 ts)
      else None)"

definition two_rev_tokens :: "string list" where
  "two_rev_tokens =
     [''2'', ''0'', ''3'', ''41'', ''5'', ''58'',
      ''<<'', ''/Type'', ''/Catalog'', ''/Pages'', ''3'', ''0'', ''R'', ''>>'',
      ''<<'', ''/Type'', ''/Pages'', ''>>'',
      ''<<'', ''/Title'', ''(old)'', ''>>'']"

definition two_rev :: pdfio_ext where
  "two_rev =
     \<lparr>x_open = True,
      x_seek = (\<lambda>off. off),
      x_gets = (\<lambda>p. if p = 0 then Some (''%PDF-1.5'', 9)
                     else if p = 400 then Some (''4 0 obj'', 408)
                     else if p = 900 then Some (''6 0 obj'', 908)
                     else None),
      x_read = (\<lambda>p n. []),
      x_tail = ''ream'' @ lf @ ''endobj'' @ lf @ ''startxref'' @ lf @ ''900'' @ lf @ ''%%EOF'' @ lf,
      x_value = (\<lambda>p. if p = 408
                      then Some (VDict [(''Type'', VName ''XRef''), (''Size'', VNumber 6),
                                        (''W'', VArray [VNumber 1, VNumber 2, VNumber 1]),
                                        (''Root'', VIndirect 2 0)], 470)
                      else if p = 908
                      then Some (VDict [(''Type'', VName ''XRef''), (''Size'', VNumber 7),
                                        (''Index'', VArray [VNumber 5, VNumber 2]),
                                        (''W'', VArray [VNumber 1, VNumber 2, VNumber 1]),
                                        (''Root'', VIndirect 2 0), (''Prev'', VNumber 400)], 990)
                      else None),
      x_token = (\<lambda>p. if p = 470 then Some (''stream'', 476)
                      else if p = 990 then Some (''stream'', 996)
                      else None),
      x_flush = (\<lambda>p. p + 1),
      x_stream_bytes = (\<lambda>obj. if obj_number obj = 4
                             then Some [0, 0, 0, 0,  1, 0, 20, 0,  2, 0, 1, 0,  2, 0, 1, 1,
                                        1, 1, 144, 0,  2, 0, 1, 2]
                             else if obj_number obj = 6
                             then Some [1, 2, 88, 0,  1, 3, 132, 0]
                             else None),
      x_stream_tokens = (\<lambda>obj. if obj_number obj = 1 then Some two_rev_tokens else None),
      x_parse = two_rev_parse,
      x_load = (\<lambda>obj. VNull),
      x_stack = []\<rparr>"

text \<open>
  A file with one cross-reference stream (object 3 at offset 300, /W [1 2 0]) with the
  records free, (1, 50), (2, 1), (1, 300) for the objects 0 to 3: object 2 lives in the
  object stream 1, and object 1 has a stream that the decode pipeline cannot open.
\<close>

definition leak_file :: pdfio_ext where
  "leak_file =
     \<lparr>x_open = True,
      x_seek = (\<lambda>off. off),
      x_gets = (\<lambda>p. if p = 0 then Some (''%PDF-1.5'', 9)
                     else if p = 300 then Some (''3 0 obj'', 308)
                     else None),
      x_read = (\<lambda>p n. []),
      x_tail = ''ream'' @ lf @ ''endobj'' @ lf @ ''startxref'' @ lf @ ''300'' @ lf @ ''%%EOF'' @ lf,
      x_value = (\<lambda>p. if p = 308
                      then Some (VDict [(''Type'', VName ''XRef''), (''Size'', VNumber 4),
                                        (''W'', VArray [VNumber 1, VNumber 2, VNumber 0]),
                                        (''Root'', VIndirect 2 0)], 370)
                      else None),
      x_token = (\<lambda>p. if p = 370 then Some (''stream'', 376) else None),
      x_flush = (\<lambda>p. p + 1),
      x_stream_bytes = (\<lambda>obj. if obj_number obj = 3
                             then Some [0, 0, 0,  1, 0, 50,  2, 0, 1,  1, 1, 44]
                             else None),
      x_stream_tokens = (\<lambda>obj. None),
      x_parse = (\<lambda>ts. None),
      x_load = (\<lambda>obj. VNull),
      x_stack = []\<rparr>"

text \<open>
  The file \<open>classic_file\<close> with a second revision: a cross-reference stream (object 4 at
  offset 500) with /Prev 200 and /W [18446744073709549568 2048 0]. The first width is
  \<open>2 ^ 64 - 2048\<close>, a number that a \<open>double\<close> holds and that is in the range of \<open>size_t\<close>.
\<close>

definition wide_w_file :: pdfio_ext where
  "wide_w_file =
     classic_file
       \<lparr>x_gets := (\<lambda>p. if p = 500 then Some (''4 0 obj'', 508) else x_gets classic_file p),
        x_tail := ''ream'' @ lf @ ''endobj'' @ lf @ ''startxref'' @ lf @ ''500'' @ lf @ ''%%EOF'' @ lf,
        x_value := (\<lambda>p. if p = 508
                         then Some (VDict [(''Type'', VName ''XRef''), (''Size'', VNumber 5),
                                           (''W'', VArray [VNumber 18446744073709549568,
                                                           VNumber 2048, VNumber 0]),
                                           (''Root'', VIndirect 1 0), (''Prev'', VNumber 200)],
                                    590)
                         else x_value classic_file p),
        x_token := (\<lambda>p. if p = 590 then Some (''stream'', 596) else None),
        x_stream_bytes := (\<lambda>obj. if obj_number obj = 4 then Some [1, 2, 3, 4, 5, 6] else None)\<rparr>"

text \<open>The file \<open>classic_file\<close> with the first line \<open>%PDF-3.0\<close>.\<close>

definition bad_header_file :: pdfio_ext where
  "bad_header_file =
     classic_file\<lparr>x_gets := (\<lambda>p. if p = 0 then Some (''%PDF-3.0'', 9) else x_gets classic_file p)\<rparr>"

text \<open>
  A file laid out as a linearized file is: \<open>startxref\<close> is 100, the offset of the table for
  the first page (a subsection \<open>2 2\<close>), whose trailer has /Prev 500, the offset of the main
  table (a subsection \<open>0 2\<close>) that lies behind it in the file.
\<close>

definition linearized_file :: pdfio_ext where
  "linearized_file =
     \<lparr>x_open = True,
      x_seek = (\<lambda>off. off),
      x_gets = (\<lambda>p. if p = 0 then Some (''%PDF-1.4'', 9)
                     else if p = 100 then Some (''xref'', 105)
                     else if p = 105 then Some (''2 2'', 109)
                     else if p = 149 then Some (''trailer'', 157)
                     else if p = 500 then Some (''xref'', 505)
                     else if p = 505 then Some (''0 2'', 509)
                     else if p = 549 then Some (''trailer'', 557)
                     else None),
      x_read = (\<lambda>p n. if p = 109 then ''0000000200 00000 n '' @ lf
                       else if p = 129 then ''0000000260 00000 n '' @ lf
                       else if p = 509 then ''0000000000 65535 f '' @ lf
                       else if p = 529 then ''0000000300 00000 n '' @ lf
                       else []),
      x_tail = ''4 0 R >>'' @ lf @ ''startxref'' @ lf @ ''100'' @ lf @ ''%%EOF'' @ lf @ ''   '',
      x_value = (\<lambda>p. if p = 157
                      then Some (VDict [(''Size'', VNumber 4), (''Root'', VIndirect 1 0),
                                        (''Prev'', VNumber 500)], 200)
                      else if p = 557
                      then Some (VDict [(''Size'', VNumber 2), (''Root'', VIndirect 1 0)], 590)
                      else None),
      x_token = (\<lambda>p. None),
      x_flush = (\<lambda>p. p + 1),
      x_stream_bytes = (\<lambda>obj. None),
      x_stream_tokens = (\<lambda>obj. None),
      x_parse = (\<lambda>ts. None),
      x_load = classic_load,
      x_stack = []\<rparr>"

text \<open>The file \<open>two_rev\<close> with /Index [5 1 6 1] in the dictionary of the cross-reference
  stream of the second revision.\<close>

definition multi_index_dict :: pdfio_dict where
  "multi_index_dict =
     [(''Type'', VName ''XRef''), (''Size'', VNumber 7),
      (''Index'', VArray [VNumber 5, VNumber 1, VNumber 6, VNumber 1]),
      (''W'', VArray [VNumber 1, VNumber 2, VNumber 1]),
      (''Root'', VIndirect 2 0), (''Prev'', VNumber 400)]"

definition multi_index_file :: pdfio_ext where
  "multi_index_file =
     two_rev\<lparr>x_value := (\<lambda>p. if p = 908 then Some (VDict multi_index_dict, 990)
                              else x_value two_rev p)\<rparr>"






text \<open>
  A file that is cut off in its classical table. Its 41 bytes are the header \<open>%PDF-1.4\<close>,
  \<open>startxref\<close> and \<open>22\<close> on lines of their own, and at offset 22 the table: \<open>xref\<close>, the
  subsection \<open>0 1\<close> and the first 10 bytes of its entry. The last 32 bytes of the file
  begin with \<open>startxref\<close>.
\<close>

definition cut_table_file :: pdfio_ext where
  "cut_table_file =
     \<lparr>x_open = True,
      x_seek = (\<lambda>off. off),
      x_gets = (\<lambda>p. if p = 0 then Some (''%PDF-1.4'', 9)
                     else if p = 22 then Some (''xref'', 27)
                     else if p = 27 then Some (''0 1'', 31)
                     else None),
      x_read = (\<lambda>p n. if p = 31 then ''0000000000'' else []),
      x_tail = ''startxref'' @ lf @ ''22'' @ lf @ ''xref'' @ lf @ ''0 1'' @ lf @ ''0000000000'',
      x_value = (\<lambda>p. None),
      x_token = (\<lambda>p. None),
      x_flush = (\<lambda>p. p + 1),
      x_stream_bytes = (\<lambda>obj. None),
      x_stream_tokens = (\<lambda>obj. None),
      x_parse = (\<lambda>ts. None),
      x_load = (\<lambda>obj. VNull),
      x_stack = []\<rparr>"

text \<open>The file \<open>classic_file\<close> with the type character \<open>x\<close> in the entry of object 1.\<close>

definition bad_type_file :: pdfio_ext where
  "bad_type_file =
     classic_file\<lparr>x_read := (\<lambda>p n. if p = 229 then ''0000000009 00000 x '' @ lf
                                    else x_read classic_file p n)\<rparr>"

text \<open>
  A file with more than 1000 object streams. Its cross-reference stream is object 3000 at
  offset 30000, with /Index [1 2004] and /W [1 2 0]. The records of the objects 1 to 1001
  are of type 2: object \<open>n\<close> is in the object stream \<open>1001 + n\<close>. The records of the objects
  1002 to 2004 are of type 1, with the offset \<open>10 * n\<close>: the object streams 1002 to 2002,
  the catalog 2003 and the page tree 2004, which has no pages. Every object stream holds one
  object, \<open>null\<close>.
\<close>

definition type2_record :: "int \<Rightarrow> byte list" where
  "type2_record parent = [2, word_of_int (parent div 256), word_of_int parent]"

definition type1_record :: "int \<Rightarrow> byte list" where
  "type1_record off = [1, word_of_int (off div 256), word_of_int off]"

text \<open>The decimal digits of a number.\<close>

fun digits_of :: "nat \<Rightarrow> string" where
  "digits_of n =
     (if n < 10 then [char_of (48 + int n)]
      else digits_of (n div 10) @ [char_of (48 + int (n mod 10))])"

declare digits_of.simps [simp del]

definition full_queue_bytes :: "byte list" where
  "full_queue_bytes =
     concat (map type2_record [1002..2002]) @
     concat (map type1_record (map (\<lambda>n. 10 * n) [1002..2004]))"

definition full_queue_dict :: pdfio_dict where
  "full_queue_dict =
     [(''Type'', VName ''XRef''), (''Size'', VNumber 3001),
      (''Index'', VArray [VNumber 1, VNumber 2004]),
      (''W'', VArray [VNumber 1, VNumber 2, VNumber 0]),
      (''Root'', VIndirect 2003 0)]"

definition full_queue_catalog :: pdfio_dict where
  "full_queue_catalog = [(''Type'', VName ''Catalog''), (''Pages'', VIndirect 2004 0)]"

definition full_queue_pages :: pdfio_dict where
  "full_queue_pages = [(''Type'', VName ''Pages''), (''Kids'', VArray []), (''Count'', VNumber 0)]"

definition full_queue_file :: pdfio_ext where
  "full_queue_file =
     \<lparr>x_open = True,
      x_seek = (\<lambda>off. off),
      x_gets = (\<lambda>p. if p = 0 then Some (''%PDF-1.5'', 9)
                     else if p = 30000 then Some (''3000 0 obj'', 30011)
                     else None),
      x_read = (\<lambda>p n. []),
      x_tail = ''am'' @ lf @ ''endobj'' @ lf @ ''startxref'' @ lf @ ''30000'' @ lf @ ''%%EOF'' @ lf,
      x_value = (\<lambda>p. if p = 30011 then Some (VDict full_queue_dict, 30100) else None),
      x_token = (\<lambda>p. if p = 30100 then Some (''stream'', 30106) else None),
      x_flush = (\<lambda>p. p + 1),
      x_stream_bytes = (\<lambda>obj. if obj_number obj = 3000 then Some full_queue_bytes else None),
      x_stream_tokens = (\<lambda>obj. Some [digits_of (nat (obj_number obj - 1001)), ''0'', ''null'']),
      x_parse = (\<lambda>ts. if ts = [''null''] then Some (VNull, []) else None),
      x_load = (\<lambda>obj. if obj_number obj = 2003 then VDict full_queue_catalog
                       else if obj_number obj = 2004 then VDict full_queue_pages
                       else VNull),
      x_stack = []\<rparr>"
section \<open>The object index\<close>

lemma add_obj_heap:
  "pdf_heap (snd (add_obj pdf n g off)) =
     pdf_heap pdf @ [\<lparr>obj_number = n, obj_generation = g, obj_offset = off,
                      obj_stream_offset = 0, obj_value = VNone\<rparr>]"
  "fst (add_obj pdf n g off) = length (pdf_heap pdf)"
  "pdf_errors (snd (add_obj pdf n g off)) = pdf_errors pdf"
  "pdf_streams (snd (add_obj pdf n g off)) = pdf_streams pdf"
  "pdf_pos (snd (add_obj pdf n g off)) = pdf_pos pdf"
  by (simp_all add: add_obj_def Let_def)

lemma add_obj_objs:
  "mset (pdf_objs (snd (add_obj pdf n g off))) =
     mset (pdf_objs pdf) + {#length (pdf_heap pdf)#}"
  by (simp add: add_obj_def Let_def qsort_objs_def)

lemma number_at_append:
  "a < length heap \<Longrightarrow> number_at (heap @ extra) a = number_at heap a"
  by (simp add: number_at_def nth_append)

lemma sorted_le_last: "sorted xs \<Longrightarrow> x \<in> set xs \<Longrightarrow> x \<le> last (xs :: int list)"
  by (induction xs) auto

lemma add_obj_index_ok:
  assumes ok: "index_ok pdf"
  shows "index_ok (snd (add_obj pdf n g off))"
proof -
  let ?new = "\<lparr>obj_number = n, obj_generation = g, obj_offset = off,
               obj_stream_offset = 0, obj_value = VNone\<rparr>"
  let ?heap = "pdf_heap pdf @ [?new]"
  let ?ptrs = "pdf_objs pdf @ [length (pdf_heap pdf)]"
  from ok have valid: "\<forall>a \<in> set (pdf_objs pdf). a < length (pdf_heap pdf)"
    and srt: "sorted (map (number_at (pdf_heap pdf)) (pdf_objs pdf))"
    by (simp_all add: index_ok_def obj_numbers_def)
  from valid have same: "map (number_at ?heap) (pdf_objs pdf) = map (number_at (pdf_heap pdf)) (pdf_objs pdf)"
    by (simp add: number_at_append)
  have new: "number_at ?heap (length (pdf_heap pdf)) = n"
    by (simp add: number_at_def)
  have nums: "map (number_at ?heap) ?ptrs = map (number_at (pdf_heap pdf)) (pdf_objs pdf) @ [n]"
    using same new by simp
  show ?thesis
  proof (cases "length ?ptrs > 1 \<and> number_at ?heap (?ptrs ! (length ?ptrs - 2)) > n")
    case True
    then have "pdf_objs (snd (add_obj pdf n g off)) = sort_key (number_at ?heap) ?ptrs"
      by (simp add: add_obj_def Let_def qsort_objs_def)
    moreover have "pdf_heap (snd (add_obj pdf n g off)) = ?heap"
      by (simp add: add_obj_def Let_def)
    ultimately show ?thesis
      using valid by (auto simp: index_ok_def obj_numbers_def sorted_sort_key)
  next
    case False
    then have p: "pdf_objs (snd (add_obj pdf n g off)) = ?ptrs"
      by (auto simp: add_obj_def Let_def)
    have h: "pdf_heap (snd (add_obj pdf n g off)) = ?heap"
      by (simp add: add_obj_def Let_def)
    have "sorted (map (number_at (pdf_heap pdf)) (pdf_objs pdf) @ [n])"
    proof (cases "pdf_objs pdf = []")
      case True
      then show ?thesis by simp
    next
      case ne: False
      then have len: "length ?ptrs > 1" by (cases "pdf_objs pdf") auto
      have idx: "?ptrs ! (length ?ptrs - 2) = last (pdf_objs pdf)"
        using ne by (simp add: nth_append last_conv_nth)
      from ne valid have lv: "last (pdf_objs pdf) < length (pdf_heap pdf)"
        by simp
      from False len idx have "number_at ?heap (last (pdf_objs pdf)) \<le> n"
        by simp
      with lv have le: "number_at (pdf_heap pdf) (last (pdf_objs pdf)) \<le> n"
        by (simp add: number_at_append)
      have lastn: "last (map (number_at (pdf_heap pdf)) (pdf_objs pdf)) \<le> n"
        using ne le by (simp add: last_map)
      have "\<forall>x \<in> set (map (number_at (pdf_heap pdf)) (pdf_objs pdf)). x \<le> n"
      proof
        fix x assume x: "x \<in> set (map (number_at (pdf_heap pdf)) (pdf_objs pdf))"
        from srt x have "x \<le> last (map (number_at (pdf_heap pdf)) (pdf_objs pdf))"
          by (rule sorted_le_last)
        with lastn show "x \<le> n" by simp
      qed
      with srt show ?thesis by (simp add: sorted_append)
    qed
    moreover have "obj_numbers (snd (add_obj pdf n g off)) =
                     map (number_at (pdf_heap pdf)) (pdf_objs pdf) @ [n]"
      unfolding obj_numbers_def p h by (rule nums)
    moreover have "\<forall>a \<in> set (pdf_objs (snd (add_obj pdf n g off))).
                     a < length (pdf_heap (snd (add_obj pdf n g off)))"
      unfolding p h using valid by auto
    ultimately show ?thesis
      by (simp add: index_ok_def)
  qed
qed

lemma set_value_index_ok: "index_ok pdf \<Longrightarrow> index_ok (set_value pdf a v)"
proof -
  have "number_at ((pdf_heap pdf)[a := (pdf_heap pdf ! a)\<lparr>obj_value := v\<rparr>])
          = number_at (pdf_heap pdf)"
  proof
    fix b
    show "number_at ((pdf_heap pdf)[a := (pdf_heap pdf ! a)\<lparr>obj_value := v\<rparr>]) b
            = number_at (pdf_heap pdf) b"
      by (cases "a < length (pdf_heap pdf)")
         (auto simp: number_at_def nth_list_update list_update_beyond not_less)
  qed
  then show "index_ok pdf \<Longrightarrow> index_ok (set_value pdf a v)"
    by (simp add: index_ok_def obj_numbers_def set_value_def)
qed

lemma set_value_fields [simp]:
  "pdf_objs (set_value pdf a v) = pdf_objs pdf"
  "pdf_errors (set_value pdf a v) = pdf_errors pdf"
  "pdf_streams (set_value pdf a v) = pdf_streams pdf"
  "pdf_heap (set_value pdf a v) = (pdf_heap pdf)[a := (pdf_heap pdf ! a)\<lparr>obj_value := v\<rparr>]"
  by (simp_all add: set_value_def)

lemma index_ok_streams [simp]:
  "index_ok (stream_opened pdf) = index_ok pdf"
  "index_ok (pdfioStreamClose pdf) = index_ok pdf"
  "index_ok (pdfioFileError pdf msg) = index_ok pdf"
  by (simp_all add: index_ok_def obj_numbers_def stream_opened_def pdfioStreamClose_def
        pdfioFileError_def)

text \<open>\<open>bsearch_objs\<close> returns a pointer of the array to a record with the number of the key, and on an
  array in ascending order it finds the number when the array has it.\<close>

lemma compare_objs_sign:
  "compare_objs a b < 0 \<longleftrightarrow> obj_number a < obj_number b"
  "compare_objs a b > 0 \<longleftrightarrow> obj_number a > obj_number b"
  by (simp_all add: compare_objs_def)

lemma bsearch_objs_Some:
  "bsearch_objs heap ptrs key l u = Some a \<Longrightarrow> u \<le> length ptrs \<Longrightarrow>
     a \<in> set ptrs \<and> obj_number (heap ! a) = obj_number key"
proof (induction heap ptrs key l u rule: bsearch_objs.induct)
  case (1 heap ptrs key l u)
  let ?idx = "(l + u) div 2"
  let ?c = "compare_objs key (heap ! (ptrs ! ?idx))"
  from 1(3) have lu: "l < u"
    by (subst (asm) bsearch_objs.simps) (simp split: if_splits)
  with 1(4) have idx: "?idx < length ptrs" "?idx \<le> length ptrs" by simp_all
  consider (lower) "?c < 0" | (upper) "\<not> ?c < 0" "?c > 0" | (hit) "\<not> ?c < 0" "\<not> ?c > 0"
    by blast
  then show ?case
  proof cases
    case lower
    with 1(3) lu have "bsearch_objs heap ptrs key l ?idx = Some a"
      by (subst (asm) bsearch_objs.simps) (simp add: Let_def)
    from 1(1) [OF lu refl refl lower this idx(2)] show ?thesis .
  next
    case upper
    with 1(3) lu have "bsearch_objs heap ptrs key (?idx + 1) u = Some a"
      by (subst (asm) bsearch_objs.simps) (simp add: Let_def)
    from 1(2) [OF lu refl refl upper this 1(4)] show ?thesis .
  next
    case hit
    with 1(3) lu have "a = ptrs ! ?idx"
      by (subst (asm) bsearch_objs.simps) (simp add: Let_def)
    with hit idx show ?thesis by (simp add: compare_objs_sign)
  qed
qed

lemma sorted_numbers_mono:
  "sorted (map (number_at heap) ptrs) \<Longrightarrow> i \<le> j \<Longrightarrow> j < length ptrs \<Longrightarrow>
     obj_number (heap ! (ptrs ! i)) \<le> obj_number (heap ! (ptrs ! j))"
  using sorted_nth_mono [of "map (number_at heap) ptrs" i j] by (simp add: number_at_def)

lemma bsearch_objs_None:
  "bsearch_objs heap ptrs key l u = None \<Longrightarrow> sorted (map (number_at heap) ptrs) \<Longrightarrow>
     u \<le> length ptrs \<Longrightarrow> l \<le> i \<Longrightarrow> i < u \<Longrightarrow>
     obj_number (heap ! (ptrs ! i)) \<noteq> obj_number key"
proof (induction heap ptrs key l u rule: bsearch_objs.induct)
  case (1 heap ptrs key l u)
  let ?idx = "(l + u) div 2"
  let ?c = "compare_objs key (heap ! (ptrs ! ?idx))"
  from 1(6,7) have lu: "l < u" by simp
  with 1(5) have idx: "?idx < length ptrs" "?idx \<le> length ptrs" "?idx < u" by simp_all
  from 1(5,7) have i: "i < length ptrs" by simp
  consider (lower) "?c < 0" | (upper) "\<not> ?c < 0" "?c > 0" | (hit) "\<not> ?c < 0" "\<not> ?c > 0"
    by blast
  then show ?case
  proof cases
    case lower
    with 1(3) lu have none: "bsearch_objs heap ptrs key l ?idx = None"
      by (subst (asm) bsearch_objs.simps) (simp add: Let_def)
    show ?thesis
    proof (cases "i < ?idx")
      case True
      from 1(1) [OF lu refl refl lower none 1(4) idx(2) 1(6) True] show ?thesis .
    next
      case False
      then have "?idx \<le> i" by simp
      from sorted_numbers_mono [OF 1(4) this i] lower show ?thesis
        by (simp add: compare_objs_sign)
    qed
  next
    case upper
    with 1(3) lu have none: "bsearch_objs heap ptrs key (?idx + 1) u = None"
      by (subst (asm) bsearch_objs.simps) (simp add: Let_def)
    show ?thesis
    proof (cases "?idx + 1 \<le> i")
      case True
      from 1(2) [OF lu refl refl upper none 1(4,5) True 1(7)] show ?thesis .
    next
      case False
      then have "i \<le> ?idx" by simp
      from sorted_numbers_mono [OF 1(4) this idx(1)] upper show ?thesis
        by (simp add: compare_objs_sign)
    qed
  next
    case hit
    with 1(3) lu show ?thesis
      by (subst (asm) bsearch_objs.simps) (simp add: Let_def)
  qed
qed

lemma find_Some:
  assumes "pdfioFileFindObject pdf k = Some a"
  shows "a \<in> set (pdf_objs pdf) \<and> obj_number (pdf_heap pdf ! a) = k"
proof -
  from assms have "bsearch_objs (pdf_heap pdf) (pdf_objs pdf)
             \<lparr>obj_number = k, obj_generation = 0, obj_offset = 0, obj_stream_offset = 0,
              obj_value = VNone\<rparr> 0 (length (pdf_objs pdf)) = Some a"
    by (simp add: pdfioFileFindObject_def split: if_splits)
  from bsearch_objs_Some [OF this] show ?thesis by simp
qed

lemma find_None:
  assumes ok: "index_ok pdf"
  shows "pdfioFileFindObject pdf k = None \<longleftrightarrow> k \<notin> set (obj_numbers pdf)"
proof
  assume none: "pdfioFileFindObject pdf k = None"
  show "k \<notin> set (obj_numbers pdf)"
  proof
    assume "k \<in> set (obj_numbers pdf)"
    then obtain i where i: "i < length (pdf_objs pdf)"
      and k: "obj_number (pdf_heap pdf ! (pdf_objs pdf ! i)) = k"
      by (auto simp: obj_numbers_def number_at_def in_set_conv_nth)
    from i none have "bsearch_objs (pdf_heap pdf) (pdf_objs pdf)
             \<lparr>obj_number = k, obj_generation = 0, obj_offset = 0, obj_stream_offset = 0,
              obj_value = VNone\<rparr> 0 (length (pdf_objs pdf)) = None"
      by (simp add: pdfioFileFindObject_def split: if_splits)
    from bsearch_objs_None [OF this _ _ _ i] ok k show False
      by (simp add: index_ok_def obj_numbers_def)
  qed
next
  assume "k \<notin> set (obj_numbers pdf)"
  then show "pdfioFileFindObject pdf k = None"
    using find_Some [of pdf k] 
    by (cases "pdfioFileFindObject pdf k") (auto simp: obj_numbers_def number_at_def)
qed

lemma add_obj_numbers:
  assumes ok: "index_ok pdf"
  shows "set (obj_numbers (snd (add_obj pdf n g off))) = insert n (set (obj_numbers pdf))"
proof -
  let ?pdf' = "snd (add_obj pdf n g off)"
  from ok have valid: "\<forall>a \<in> set (pdf_objs pdf). a < length (pdf_heap pdf)"
    by (simp add: index_ok_def)
  have "set (pdf_objs ?pdf') = set_mset (mset (pdf_objs ?pdf'))" by simp
  also have "\<dots> = insert (length (pdf_heap pdf)) (set (pdf_objs pdf))"
    by (simp only: add_obj_objs) simp
  finally have objs: "set (pdf_objs ?pdf') = insert (length (pdf_heap pdf)) (set (pdf_objs pdf))" .
  have new: "number_at (pdf_heap ?pdf') (length (pdf_heap pdf)) = n"
    by (simp add: add_obj_heap number_at_def)
  have old: "\<And>a. a \<in> set (pdf_objs pdf) \<Longrightarrow>
                number_at (pdf_heap ?pdf') a = number_at (pdf_heap pdf) a"
    using valid by (simp add: add_obj_heap number_at_append)
  have "set (obj_numbers ?pdf') = number_at (pdf_heap ?pdf') ` set (pdf_objs ?pdf')"
    by (simp add: obj_numbers_def)
  also have "\<dots> = insert n (number_at (pdf_heap ?pdf') ` set (pdf_objs pdf))"
    by (simp add: objs new)
  also have "number_at (pdf_heap ?pdf') ` set (pdf_objs pdf)
               = number_at (pdf_heap pdf) ` set (pdf_objs pdf)"
    using old by (intro image_cong) simp_all
  finally show ?thesis by (simp add: obj_numbers_def)
qed

lemma set_value_numbers [simp]: "obj_numbers (set_value pdf a v) = obj_numbers pdf"
proof -
  have "number_at ((pdf_heap pdf)[a := (pdf_heap pdf ! a)\<lparr>obj_value := v\<rparr>])
          = number_at (pdf_heap pdf)"
  proof
    fix b
    show "number_at ((pdf_heap pdf)[a := (pdf_heap pdf ! a)\<lparr>obj_value := v\<rparr>]) b
            = number_at (pdf_heap pdf) b"
      by (cases "a < length (pdf_heap pdf)")
         (auto simp: number_at_def nth_list_update list_update_beyond not_less)
  qed
  then show ?thesis by (simp add: obj_numbers_def set_value_def)
qed

lemma streams_numbers [simp]:
  "obj_numbers (stream_opened pdf) = obj_numbers pdf"
  "obj_numbers (pdfioStreamClose pdf) = obj_numbers pdf"
  by (simp_all add: obj_numbers_def stream_opened_def pdfioStreamClose_def)

section \<open>What the loaders leave unchanged\<close>

text \<open>No function of the resolver writes \<open>pdf->version\<close>, and only lines 993-998 write
  \<open>pdf->trailer\<close>.\<close>

lemma kept_prims [simp]:
  "pdf_version (pdfioFileError pdf msg) = pdf_version pdf"
  "pdf_trailer (pdfioFileError pdf msg) = pdf_trailer pdf"
  "pdf_version (pdfioStreamClose pdf) = pdf_version pdf"
  "pdf_trailer (pdfioStreamClose pdf) = pdf_trailer pdf"
  "pdf_version (stream_opened pdf) = pdf_version pdf"
  "pdf_trailer (stream_opened pdf) = pdf_trailer pdf"
  "pdf_version (set_value pdf a v) = pdf_version pdf"
  "pdf_trailer (set_value pdf a v) = pdf_trailer pdf"
  "pdf_version (set_stream_offset pdf a q) = pdf_version pdf"
  "pdf_trailer (set_stream_offset pdf a q) = pdf_trailer pdf"
  "pdf_version (snd (add_obj pdf n g off)) = pdf_version pdf"
  "pdf_trailer (snd (add_obj pdf n g off)) = pdf_trailer pdf"
  by (simp_all add: pdfioFileError_def pdfioStreamClose_def stream_opened_def
        set_value_def set_stream_offset_def add_obj_def Let_def)

lemma add_obj_kept:
  "add_obj pdf n g off = (a, pdf') \<Longrightarrow>
   pdf_version pdf' = pdf_version pdf \<and> pdf_trailer pdf' = pdf_trailer pdf"
  using kept_prims(11,12) [of pdf n g off] by simp

lemma read_numbers_kept:
  "read_numbers pdf ts objs = (pdf', r) \<Longrightarrow>
   pdf_version pdf' = pdf_version pdf \<and> pdf_trailer pdf' = pdf_trailer pdf"
proof (induction pdf ts objs arbitrary: pdf' r rule: read_numbers.induct)
  case (1 pdf objs)
  then show ?case by simp
next
  case (2 pdf t ts objs)
  show ?case
  proof (cases "\<not> (t \<noteq> [] \<and> isdigit (hd t)) \<or> length objs \<ge> 1000")
    case True
    with 2(2) show ?thesis by (auto split: if_splits)
  next
    case False
    obtain a pdf1 where ao: "add_obj pdf (size_t_cast (fst (strtoimax t))) 0 0 = (a, pdf1)"
      by (cases "add_obj pdf (size_t_cast (fst (strtoimax t))) 0 0")
    from False ao 2(2) have "read_numbers pdf1 (tl ts) (objs @ [a]) = (pdf', r)"
      by simp
    with 2(1) False ao
    have "pdf_version pdf' = pdf_version pdf1 \<and> pdf_trailer pdf' = pdf_trailer pdf1"
      by fastforce
    with add_obj_kept [OF ao] show ?thesis by simp
  qed
qed

lemma read_values_kept:
  "read_values E pdf toks objs = (ok, pdf') \<Longrightarrow>
   pdf_version pdf' = pdf_version pdf \<and> pdf_trailer pdf' = pdf_trailer pdf"
proof (induction objs arbitrary: pdf toks ok pdf')
  case Nil
  then show ?case by simp
next
  case (Cons a as)
  show ?case
  proof (cases "x_parse E toks")
    case None
    with Cons.prems show ?thesis by simp
  next
    case (Some vt)
    obtain v toks' where vt: "vt = (v, toks')" by (cases vt)
    with Some Cons.prems have "read_values E (set_value pdf a v) toks' as = (ok, pdf')"
      by simp
    from Cons.IH [OF this] show ?thesis by simp
  qed
qed

lemma load_obj_stream_kept:
  "load_obj_stream E pdf a = (ok, pdf') \<Longrightarrow>
   pdf_version pdf' = pdf_version pdf \<and> pdf_trailer pdf' = pdf_trailer pdf"
  by (auto simp: load_obj_stream_def split: option.splits prod.splits if_splits
           dest!: read_numbers_kept read_values_kept)

lemma xref_record_kept:
  "xref_record E w0 w1 w2 buffer number sobjs pdf = Some (ok, sobjs', pdf') \<Longrightarrow>
   pdf_version pdf' = pdf_version pdf \<and> pdf_trailer pdf' = pdf_trailer pdf"
  by (auto simp: xref_record_def split: option.splits prod.splits if_splits
           dest!: load_obj_stream_kept)

lemma xref_records_kept:
  "xref_records E w0 w1 w2 st buffer number sobjs pdf = Some (ok, sobjs', pdf') \<Longrightarrow>
   pdf_version pdf' = pdf_version pdf \<and> pdf_trailer pdf' = pdf_trailer pdf"
proof (induction E w0 w1 w2 st buffer number sobjs pdf arbitrary: ok sobjs' pdf'
       rule: xref_records.induct)
  case (1 E w0 w1 w2 st buffer number sobjs pdf)
  let ?buf = "take (nat (w_total w0 w1 w2)) st @
              drop (length (take (nat (w_total w0 w1 w2)) st)) buffer"
  show ?case
  proof (cases "take (nat (w_total w0 w1 w2)) st = []")
    case True
    with 1(2) show ?thesis by (simp add: xref_records.simps)
  next
    case False
    from False 1(2) obtain ok1 sobjs1 pdf1 where
      rec: "xref_record E w0 w1 w2 ?buf number sobjs pdf = Some (ok1, sobjs1, pdf1)"
      by (subst (asm) xref_records.simps) (auto split: option.splits)
    note k1 = xref_record_kept [OF rec]
    show ?thesis
    proof (cases ok1)
      case True
      with False rec 1(2)
      have "xref_records E w0 w1 w2 (drop (nat (w_total w0 w1 w2)) st) ?buf (number + 1)
              sobjs1 pdf1 = Some (ok, sobjs', pdf')"
        by (subst (asm) xref_records.simps) simp
      from 1(1) [OF False rec refl refl True this] k1 show ?thesis by simp
    next
      case False
      with \<open>take (nat (w_total w0 w1 w2)) st \<noteq> []\<close> rec 1(2) have "pdf' = pdf1"
        by (subst (asm) xref_records.simps) simp
      with k1 show ?thesis by simp
    qed
  qed
qed

lemma load_sobjs_kept:
  "load_sobjs E pdf sobjs = (ok, pdf') \<Longrightarrow>
   pdf_version pdf' = pdf_version pdf \<and> pdf_trailer pdf' = pdf_trailer pdf"
proof (induction sobjs arbitrary: pdf ok pdf')
  case Nil
  then show ?case by simp
next
  case (Cons s ss)
  show ?case
  proof (cases "pdfioFileFindObject pdf s")
    case None
    with Cons.prems show ?thesis by auto
  next
    case (Some obj)
    obtain ok1 pdf1 where l: "load_obj_stream E pdf obj = (ok1, pdf1)"
      by (cases "load_obj_stream E pdf obj")
    note k1 = load_obj_stream_kept [OF l]
    show ?thesis
    proof (cases ok1)
      case True
      with Some l Cons.prems have "load_sobjs E pdf1 ss = (ok, pdf')" by simp
      from Cons.IH [OF this] k1 show ?thesis by simp
    next
      case False
      with Some l Cons.prems k1 show ?thesis by auto
    qed
  qed
qed

lemma xref_stream_body_kept:
  "xref_stream_body E pdf obj d = Some (ok, pdf') \<Longrightarrow>
   pdf_version pdf' = pdf_version pdf \<and> pdf_trailer pdf' = pdf_trailer pdf"
  by (auto simp: xref_stream_body_def Let_def
           split: option.splits prod.splits if_splits
           dest!: xref_records_kept load_sobjs_kept)

lemma load_xref_stream_kept:
  "load_xref_stream E pdf line off = Some (pdf', r) \<Longrightarrow>
   pdf_version pdf' = pdf_version pdf \<and> pdf_trailer pdf' = pdf_trailer pdf"
  by (auto simp: load_xref_stream_def Let_def
           split: option.splits prod.splits if_splits pdfio_value.splits
           dest!: xref_stream_body_kept add_obj_kept)

lemma xref_entry_kept:
  "xref_entry E pdf number = (ok, pdf') \<Longrightarrow>
   pdf_version pdf' = pdf_version pdf \<and> pdf_trailer pdf' = pdf_trailer pdf"
  by (auto simp: xref_entry_def Let_def split: option.splits prod.splits if_splits)

lemma xref_entries_kept:
  "xref_entries k E pdf number = (ok, pdf') \<Longrightarrow>
   pdf_version pdf' = pdf_version pdf \<and> pdf_trailer pdf' = pdf_trailer pdf"
proof (induction k arbitrary: pdf number ok pdf')
  case 0
  then show ?case by simp
next
  case (Suc k)
  obtain ok1 pdf1 where e: "xref_entry E pdf number = (ok1, pdf1)"
    by (cases "xref_entry E pdf number")
  note k1 = xref_entry_kept [OF e]
  show ?case
  proof (cases ok1)
    case True
    with e Suc.prems have "xref_entries k E pdf1 (number + 1) = (ok, pdf')" by simp
    from Suc.IH [OF this] k1 show ?thesis by simp
  next
    case False
    with e Suc.prems k1 show ?thesis by auto
  qed
qed

lemma xref_subsections_kept:
  "xref_subsections fuel E pdf = Some (ok, pdf') \<Longrightarrow>
   pdf_version pdf' = pdf_version pdf \<and> pdf_trailer pdf' = pdf_trailer pdf"
proof (induction fuel arbitrary: pdf ok pdf')
  case 0
  then show ?case by simp
next
  case (Suc fuel)
  show ?case
  proof (cases "x_gets E (pdf_pos pdf)")
    case None
    with Suc.prems show ?thesis by auto
  next
    case (Some lp)
    obtain line p where lp: "lp = (line, p)" by (cases lp)
    show ?thesis
    proof (cases "line = ''trailer'' \<or> sscanf_jd_jd line = None")
      case True
      with Some lp Suc.prems show ?thesis by (auto split: if_splits)
    next
      case False
      then obtain number num_objects where sc: "sscanf_jd_jd line = Some (number, num_objects)"
        by auto
      obtain ok1 pdf1 where
        e: "xref_entries (nat num_objects) E (pdf\<lparr>pdf_pos := p\<rparr>) number = (ok1, pdf1)"
        by (cases "xref_entries (nat num_objects) E (pdf\<lparr>pdf_pos := p\<rparr>) number")
      from xref_entries_kept [OF e]
      have k1: "pdf_version pdf1 = pdf_version pdf \<and> pdf_trailer pdf1 = pdf_trailer pdf"
        by simp
      show ?thesis
      proof (cases ok1)
        case True
        with False Some lp sc e Suc.prems have "xref_subsections fuel E pdf1 = Some (ok, pdf')"
          by simp
        from Suc.IH [OF this] k1 show ?thesis by simp
      next
        case ok1: False
        with False Some lp sc e Suc.prems k1 show ?thesis by auto
      qed
    qed
  qed
qed

lemma load_xref_table_kept:
  "load_xref_table fuel E pdf = Some (pdf', r) \<Longrightarrow>
   pdf_version pdf' = pdf_version pdf \<and> pdf_trailer pdf' = pdf_trailer pdf"
  by (auto simp: load_xref_table_def split: option.splits prod.splits if_splits pdfio_value.splits
           dest!: xref_subsections_kept)

lemma load_xref_section_kept:
  "load_xref_section fuel E pdf off = Some (pdf', r) \<Longrightarrow>
   pdf_version pdf' = pdf_version pdf \<and> pdf_trailer pdf' = pdf_trailer pdf"
  by (auto simp: load_xref_section_def split: option.splits prod.splits if_splits
           dest!: load_xref_stream_kept load_xref_table_kept)

lemma save_trailer_version [simp]: "pdf_version (save_trailer pdf tr) = pdf_version pdf"
  by (simp add: save_trailer_def)

lemma save_trailer_filled: "pdf_trailer pdf = Some t \<Longrightarrow> save_trailer pdf tr = pdf"
  by (simp add: save_trailer_def)

lemma save_trailer_empty:
  "pdf_trailer pdf = None \<Longrightarrow> save_trailer pdf tr = pdf\<lparr>pdf_trailer := Some tr\<rparr>"
  by (simp add: save_trailer_def)

lemma load_xref_chain_step:
  "load_xref_section (Suc fuel) E pdf off = Some (pdf1, Some tr) \<Longrightarrow>
   load_xref_chain (Suc fuel) E pdf off =
     (if pdfioDictGetNumber tr ''Prev'' \<le> 0 then Some (True, save_trailer pdf1 tr)
      else load_xref_chain fuel E (save_trailer pdf1 tr) (pdfioDictGetNumber tr ''Prev''))"
  by simp

lemma load_xref_chain_version:
  "load_xref_chain fuel E pdf off = Some (ok, pdf') \<Longrightarrow> pdf_version pdf' = pdf_version pdf"
proof (induction fuel arbitrary: pdf off)
  case 0
  then show ?case by simp
next
  case (Suc fuel)
  from Suc.prems obtain pdf1 r where
    sec: "load_xref_section (Suc fuel) E pdf off = Some (pdf1, r)"
    by (cases "load_xref_section (Suc fuel) E pdf off") auto
  note k1 = load_xref_section_kept [OF sec]
  show ?case
  proof (cases r)
    case None
    with sec Suc.prems k1 show ?thesis by auto
  next
    case (Some tr)
    show ?thesis
    proof (cases "pdfioDictGetNumber tr ''Prev'' \<le> 0")
      case True
      with sec Some Suc.prems k1 show ?thesis by auto
    next
      case False
      with sec Some Suc.prems
      have "load_xref_chain fuel E (save_trailer pdf1 tr) (pdfioDictGetNumber tr ''Prev'')
              = Some (ok, pdf')"
        by simp
      from Suc.IH [OF this] k1 show ?thesis by simp
    qed
  qed
qed

lemma load_xref_chain_trailer_filled:
  "load_xref_chain fuel E pdf off = Some (ok, pdf') \<Longrightarrow> pdf_trailer pdf = Some t \<Longrightarrow>
   pdf_trailer pdf' = Some t"
proof (induction fuel arbitrary: pdf off)
  case 0
  then show ?case by simp
next
  case (Suc fuel)
  from Suc.prems obtain pdf1 r where
    sec: "load_xref_section (Suc fuel) E pdf off = Some (pdf1, r)"
    by (cases "load_xref_section (Suc fuel) E pdf off") auto
  from load_xref_section_kept [OF sec] Suc.prems(2)
  have k1: "pdf_trailer pdf1 = Some t" by simp
  show ?case
  proof (cases r)
    case None
    with sec Suc.prems k1 show ?thesis by auto
  next
    case (Some tr)
    show ?thesis
    proof (cases "pdfioDictGetNumber tr ''Prev'' \<le> 0")
      case True
      with sec Some Suc.prems k1 show ?thesis by (auto simp: save_trailer_filled)
    next
      case False
      with sec Some Suc.prems k1
      have "load_xref_chain fuel E pdf1 (pdfioDictGetNumber tr ''Prev'') = Some (ok, pdf')"
        by (simp add: save_trailer_filled)
      from Suc.IH [OF this k1] show ?thesis .
    qed
  qed
qed

lemma load_kids_kept:
  assumes f: "\<And>pdf obj ok pdf'. f pdf obj = Some (ok, pdf') \<Longrightarrow>
                pdf_version pdf' = pdf_version pdf \<and> pdf_trailer pdf' = pdf_trailer pdf"
  shows "load_kids f pdf ks = Some (ok, pdf') \<Longrightarrow>
         pdf_version pdf' = pdf_version pdf \<and> pdf_trailer pdf' = pdf_trailer pdf"
proof (induction ks arbitrary: pdf)
  case Nil
  then show ?case by simp
next
  case (Cons k ks)
  from Cons.prems obtain ok1 pdf1 where c: "f pdf (value_object pdf k) = Some (ok1, pdf1)"
    by (cases "f pdf (value_object pdf k)") auto
  note k1 = f [OF c]
  show ?case
  proof (cases ok1)
    case True
    with c Cons.prems have "load_kids f pdf1 ks = Some (ok, pdf')" by simp
    from Cons.IH [OF this] k1 show ?thesis by simp
  next
    case False
    with c Cons.prems k1 show ?thesis by auto
  qed
qed

lemma load_pages_kept:
  "load_pages fuel E pdf obj = Some (ok, pdf') \<Longrightarrow>
   pdf_version pdf' = pdf_version pdf \<and> pdf_trailer pdf' = pdf_trailer pdf"
proof (induction fuel arbitrary: pdf obj ok pdf')
  case 0
  then show ?case by simp
next
  case (Suc fuel)
  show ?case
  proof (cases obj)
    case None
    with Suc.prems show ?thesis by auto
  next
    case (Some a)
    show ?thesis
    proof (cases "pdfioObjGetDict E pdf a")
      case None
      with Some Suc.prems show ?thesis by auto
    next
      case d: (Some dict)
      show ?thesis
      proof (cases "pdfioDictGetName dict ''Type''")
        case None
        with Some d Suc.prems show ?thesis by auto
      next
        case t: (Some t)
        show ?thesis
        proof (cases "t \<noteq> ''Pages'' \<and> t \<noteq> ''Page''")
          case True
          with Some d t Suc.prems show ?thesis by auto
        next
          case False
          show ?thesis
          proof (cases "pdfioDictGetArray dict ''Kids''")
            case None
            with Some d t False Suc.prems show ?thesis by auto
          next
            case k: (Some kids)
            with Some d t False Suc.prems
            have "load_kids (load_pages fuel E) pdf kids = Some (ok, pdf')"
              by auto
            from load_kids_kept [of "load_pages fuel E", OF Suc.IH this] show ?thesis .
          qed
        qed
      qed
    qed
  qed
qed

lemma load_xref_finish_kept:
  "load_xref_finish fuel E pdf = Some (ok, pdf') \<Longrightarrow>
   pdf_version pdf' = pdf_version pdf \<and> pdf_trailer pdf' = pdf_trailer pdf"
  by (auto simp: load_xref_finish_def Let_def split: option.splits dest!: load_pages_kept)

lemma load_xref_version:
  "load_xref fuel E pdf off = Some (ok, pdf') \<Longrightarrow> pdf_version pdf' = pdf_version pdf"
  by (auto simp: load_xref_def split: option.splits if_splits
           dest!: load_xref_chain_version load_xref_finish_kept)

section \<open>The claims settled by running the model\<close>

text \<open>
  C1. Claim: in every file that \<open>pdfioFileOpen\<close> returns, the object numbers seen through
  \<open>pdfioFileGetObject\<close> strictly increase with the index, so no two records share an object
  number and generation. The code: \<open>two_rev\<close> is opened, and its index of 7 records holds
  two records for object 5, generation 0, at the indices 4 and 5. The second revision's
  record for object 5 is there when \<open>load_obj_stream\<close> reads the object stream of the first
  revision, and line 563 adds every number the stream declares without looking it up; the
  record loops look a number up first (lines 838 and 953).
\<close>

theorem C1_two_records_for_one_object:
  "map_option
     (\<lambda>pdf. (pdfioFileGetNumObjects pdf, obj_numbers pdf,
             map_option (\<lambda>obj. (obj_number obj, obj_generation obj)) (pdfioFileGetObject pdf 4),
             map_option (\<lambda>obj. (obj_number obj, obj_generation obj)) (pdfioFileGetObject pdf 5)))
     (opened (pdfioFileOpen 3 two_rev))
   = Some (7, [1, 2, 3, 4, 5, 5, 6], Some (5, 0), Some (5, 0))"
  by code_simp

text \<open>
  C3. Claim: whenever \<open>pdfioFileOpen\<close> fails, the failure is reported exactly once through
  the error callback before \<open>NULL\<close> is returned. The code: for \<open>truncated_file\<close> line 912
  returns false without a report when \<open>_pdfioFileRead\<close> delivers fewer than 20 bytes, and for
  \<open>wrong_pages_file\<close> line 622 of \<open>load_pages\<close> returns false without a report when the
  /Type of the page tree is neither Pages nor Page. Both opens return \<open>NULL\<close> and the
  callback was never called.
\<close>

theorem C3_open_fails_without_a_report:
  "pdfioFileOpen 3 truncated_file = Some (Null [] 0) \<and>
   pdfioFileOpen 3 wrong_pages_file = Some (Null [] 0)"
  by code_simp

text \<open>
  C4. Claim: a decode stream that \<open>load_xref\<close> or \<open>load_obj_stream\<close> opened is closed on
  every path before the function returns. The code: for \<open>leak_file\<close> the record of object
  2 names the object stream 1, which is in the index, so line 850 calls \<open>load_obj_stream\<close>
  at once; it fails, and line 851 returns false while the cross-reference stream opened at
  line 800 is still open (line 872 is not reached). \<open>pdfioFileOpen\<close> returns \<open>NULL\<close> with
  one report and one stream open.
\<close>

theorem C4_stream_left_open:
  "pdfioFileOpen 3 leak_file =
     Some (Null [''Unable to open compressed object stream %lu.''] 1)"
  by code_simp

text \<open>
  C7. Claim: a cross-reference stream is refused with the invalid-W report unless
  \<open>w1 > 0\<close>, \<open>w2 \<le> 2\<close> and \<open>w0 + w1 + w2 \<le> 32\<close>. The code: the sum of line 790 is a
  \<open>size_t\<close> sum. For /W [18446744073709549568 2048 0] it wraps around to 0, the test of line
  794 passes although the widths add up to \<open>2 ^ 64\<close>, and \<open>wide_w_file\<close> is opened without
  any report.
\<close>

theorem C7_wrapped_width_sum_accepted:
  "\<not> xref_w_invalid 18446744073709549568 2048 0 \<and>
   (18446744073709549568 + 2048 + 0 :: int) > 32 \<and>
   map_option (\<lambda>pdf. (pdf_errors pdf, obj_numbers pdf)) (opened (pdfioFileOpen 3 wide_w_file))
     = Some ([], [1, 2, 3, 4])"
  by code_simp

section \<open>The header line and the version\<close>

lemma bad_header_iff:
  "bad_header line \<longleftrightarrow>
   \<not> (\<exists>d rest. isdigit d \<and> (line = ''%PDF-1.'' @ d # rest \<or> line = ''%PDF-2.'' @ d # rest))"
proof
  assume bad: "bad_header line"
  show "\<not> (\<exists>d rest. isdigit d \<and> (line = ''%PDF-1.'' @ d # rest \<or> line = ''%PDF-2.'' @ d # rest))"
  proof
    assume "\<exists>d rest. isdigit d \<and> (line = ''%PDF-1.'' @ d # rest \<or> line = ''%PDF-2.'' @ d # rest)"
    then obtain d rest where d: "isdigit d"
      and l: "line = ''%PDF-1.'' @ d # rest \<or> line = ''%PDF-2.'' @ d # rest"
      by blast
    from l have "(take 7 line = ''%PDF-1.'' \<or> take 7 line = ''%PDF-2.'') \<and> length line > 7 \<and>
                 line ! 7 = d"
      by auto
    with d bad show False by (auto simp: bad_header_def)
  qed
next
  assume none: "\<not> (\<exists>d rest. isdigit d \<and>
                      (line = ''%PDF-1.'' @ d # rest \<or> line = ''%PDF-2.'' @ d # rest))"
  show "bad_header line"
  proof (rule ccontr)
    assume "\<not> bad_header line"
    then have pre: "take 7 line = ''%PDF-1.'' \<or> take 7 line = ''%PDF-2.''"
      and len: "7 < length line" and dig: "isdigit (line ! 7)"
      by (auto simp: bad_header_def)
    from Cons_nth_drop_Suc [OF len] have "drop 7 line = line ! 7 # drop 8 line"
      by simp
    with append_take_drop_id [of 7 line] have "line = take 7 line @ line ! 7 # drop 8 line"
      by simp
    with pre have "line = ''%PDF-1.'' @ line ! 7 # drop 8 line \<or>
                   line = ''%PDF-2.'' @ line ! 7 # drop 8 line"
      by metis
    with dig none show False by blast
  qed
qed

text \<open>
  C8. The first line of the file passes the test of line 401 exactly when it begins with
  \<open>%PDF-1.\<close> or \<open>%PDF-2.\<close> and an ASCII digit (whatever follows the digit on the line is
  not looked at). A first line that does not pass makes \<open>pdfioFileOpen\<close> report the bad
  header once and return \<open>NULL\<close>. Every file that \<open>pdfioFileOpen\<close> returns has a first
  line that passes, and \<open>pdfioFileGetVersion\<close> gives that line without its first five
  characters \<open>%PDF-\<close>.
\<close>

theorem C8_header_and_version:
  assumes "x_open E" and "x_gets E 0 = Some (line, p)"
  shows "(bad_header line \<longleftrightarrow>
            \<not> (\<exists>d rest. isdigit d \<and>
                  (line = ''%PDF-1.'' @ d # rest \<or> line = ''%PDF-2.'' @ d # rest))) \<and>
         (bad_header line \<longrightarrow> pdfioFileOpen fuel E = Some (Null [''Bad header '%s'.''] 0)) \<and>
         (\<forall>pdf. pdfioFileOpen fuel E = Some (Handle pdf) \<longrightarrow>
            \<not> bad_header line \<and> pdfioFileGetVersion pdf = Some (drop 5 line))"
proof (intro conjI allI impI)
  show "bad_header line \<longleftrightarrow>
          \<not> (\<exists>d rest. isdigit d \<and>
                (line = ''%PDF-1.'' @ d # rest \<or> line = ''%PDF-2.'' @ d # rest))"
    by (rule bad_header_iff)
next
  assume "bad_header line"
  with assms show "pdfioFileOpen fuel E = Some (Null [''Bad header '%s'.''] 0)"
    by (simp add: pdfioFileOpen_def pdfioFileClose_def pdfioFileError_def calloc_file_def)
next
  fix pdf
  assume h: "pdfioFileOpen fuel E = Some (Handle pdf)"
  with assms show "\<not> bad_header line"
    by (auto simp: pdfioFileOpen_def pdfioFileClose_def)
next
  fix pdf
  assume h: "pdfioFileOpen fuel E = Some (Handle pdf)"
  with assms obtain off where
    "load_xref fuel E (calloc_file\<lparr>pdf_version := Some (drop 5 line)\<rparr>) off = Some (True, pdf)"
    by (auto simp: pdfioFileOpen_def pdfioFileClose_def split: if_splits option.splits)
  from load_xref_version [OF this]
  show "pdfioFileGetVersion pdf = Some (drop 5 line)"
    by (simp add: pdfioFileGetVersion_def)
qed

theorem C8_header_and_version_witness:
  "x_open classic_file \<and> x_gets classic_file 0 = Some (''%PDF-1.4'', 9) \<and>
   \<not> bad_header ''%PDF-1.4'' \<and>
   map_option pdfioFileGetVersion (opened (pdfioFileOpen 3 classic_file)) = Some (Some ''1.4'') \<and>
   x_open bad_header_file \<and> x_gets bad_header_file 0 = Some (''%PDF-3.0'', 9) \<and>
   bad_header ''%PDF-3.0'' \<and>
   pdfioFileOpen 3 bad_header_file = Some (Null [''Bad header '%s'.''] 0)"
proof -
  have good: "x_open classic_file" "x_gets classic_file 0 = Some (''%PDF-1.4'', 9)"
    by code_simp+
  have bad: "x_open bad_header_file" "x_gets bad_header_file 0 = Some (''%PDF-3.0'', 9)"
    "bad_header ''%PDF-3.0''"
    by code_simp+
  have "opened (pdfioFileOpen 3 classic_file) \<noteq> None"
    by code_simp
  then obtain pdf where pdf: "pdfioFileOpen 3 classic_file = Some (Handle pdf)"
    by (auto simp: opened_def split: option.splits open_result.splits)
  from C8_header_and_version [OF good, of 3]
  have "\<forall>pdf. pdfioFileOpen 3 classic_file = Some (Handle pdf) \<longrightarrow>
          \<not> bad_header ''%PDF-1.4'' \<and> pdfioFileGetVersion pdf = Some (drop 5 ''%PDF-1.4'')"
    by blast
  with pdf have "\<not> bad_header ''%PDF-1.4'' \<and> pdfioFileGetVersion pdf = Some ''1.4''"
    by simp
  moreover from C8_header_and_version [OF bad(1,2), of 3] bad(3)
  have "pdfioFileOpen 3 bad_header_file = Some (Null [''Bad header '%s'.''] 0)"
    by blast
  ultimately show ?thesis
    using good bad pdf by (simp add: opened_def)
qed

section \<open>The chain of sections and the trailer\<close>

lemma fold_highest_first:
  "\<forall>x \<in> set ss. fst x < fst s \<Longrightarrow>
   fold (\<lambda>x best. if fst x > fst best then x else best) ss (s :: int \<times> 'b) = s"
  by (induction ss) auto

lemma xref_walk_head:
  "load_xref_section (Suc fuel) E pdf off = Some (pdf1, Some tr) \<Longrightarrow>
   \<exists>rest. xref_walk (Suc fuel) E pdf off = (off, tr) # rest"
  by simp

text \<open>
  C5, as the spec states it: the trailer kept in \<open>pdf->trailer\<close> is the trailer at the
  highest byte offset on the chain. For \<open>linearized_file\<close> the loop reads the section at
  100 and then the section at 500; the trailer kept is the one read at 100, and the trailer
  at the highest offset is the other one.
\<close>

theorem C5_first_section_not_highest_offset:
  "map_option pdf_trailer (opened (pdfioFileOpen 3 linearized_file))
     = Some (Some [(''Size'', VNumber 4), (''Root'', VIndirect 1 0), (''Prev'', VNumber 500)]) \<and>
   xref_walk 3 linearized_file (calloc_file\<lparr>pdf_version := Some ''1.4''\<rparr>) 100
     = [(100, [(''Size'', VNumber 4), (''Root'', VIndirect 1 0), (''Prev'', VNumber 500)]),
        (500, [(''Size'', VNumber 2), (''Root'', VIndirect 1 0)])] \<and>
   trailer_at_highest
     (xref_walk 3 linearized_file (calloc_file\<lparr>pdf_version := Some ''1.4''\<rparr>) 100)
     = Some [(''Size'', VNumber 2), (''Root'', VIndirect 1 0)]"
  by code_simp

text \<open>
  C5, amended. For a round of the loop that read its section, with trailer \<open>tr\<close>: the loop
  ends with success when /Prev of \<open>tr\<close> is at most 0, and reads the section at /Prev
  otherwise; a trailer without /Prev gives 0; \<open>pdf->trailer\<close> is written only when it is
  empty. So when \<open>load_xref\<close> starts with an empty \<open>pdf->trailer\<close> and returns, the trailer
  kept is the trailer of the first section read, the one at \<open>startxref\<close>. It is the trailer
  at the highest offset when every section read lies before the one read before it.
\<close>

theorem C5_trailer_of_first_section:
  assumes sec: "load_xref_section (Suc fuel) E pdf off = Some (pdf1, Some tr)"
  shows "load_xref_chain (Suc fuel) E pdf off =
           (if pdfioDictGetNumber tr ''Prev'' \<le> 0 then Some (True, save_trailer pdf1 tr)
            else load_xref_chain fuel E (save_trailer pdf1 tr) (pdfioDictGetNumber tr ''Prev'')) \<and>
         (map_of tr ''Prev'' = None \<longrightarrow> pdfioDictGetNumber tr ''Prev'' = 0) \<and>
         pdf_trailer (save_trailer pdf1 tr) =
           (case pdf_trailer pdf of None \<Rightarrow> Some tr | Some t \<Rightarrow> Some t) \<and>
         (\<forall>ok pdf'. pdf_trailer pdf = None \<and> load_xref (Suc fuel) E pdf off = Some (ok, pdf')
            \<longrightarrow> pdf_trailer pdf' = Some tr) \<and>
         (sorted_wrt (>) (map fst (xref_walk (Suc fuel) E pdf off)) \<longrightarrow>
            trailer_at_highest (xref_walk (Suc fuel) E pdf off) = Some tr)"
proof (intro conjI)
  show "load_xref_chain (Suc fuel) E pdf off =
           (if pdfioDictGetNumber tr ''Prev'' \<le> 0 then Some (True, save_trailer pdf1 tr)
            else load_xref_chain fuel E (save_trailer pdf1 tr) (pdfioDictGetNumber tr ''Prev''))"
    using sec by (rule load_xref_chain_step)
  show "map_of tr ''Prev'' = None \<longrightarrow> pdfioDictGetNumber tr ''Prev'' = 0"
    by (simp add: pdfioDictGetNumber_def)
  from load_xref_section_kept [OF sec] have k: "pdf_trailer pdf1 = pdf_trailer pdf"
    by simp
  then show "pdf_trailer (save_trailer pdf1 tr) =
           (case pdf_trailer pdf of None \<Rightarrow> Some tr | Some t \<Rightarrow> Some t)"
    by (simp add: save_trailer_def split: option.splits)
  show "\<forall>ok pdf'. pdf_trailer pdf = None \<and> load_xref (Suc fuel) E pdf off = Some (ok, pdf')
           \<longrightarrow> pdf_trailer pdf' = Some tr"
  proof (intro allI impI, elim conjE)
    fix ok pdf'
    assume empty: "pdf_trailer pdf = None"
      and lx: "load_xref (Suc fuel) E pdf off = Some (ok, pdf')"
    from empty k have st: "pdf_trailer (save_trailer pdf1 tr) = Some tr"
      by (simp add: save_trailer_def)
    from lx obtain ok1 pdf2 where
      ch: "load_xref_chain (Suc fuel) E pdf off = Some (ok1, pdf2)"
      by (auto simp: load_xref_def split: option.splits)
    have t2: "pdf_trailer pdf2 = Some tr"
    proof (cases "pdfioDictGetNumber tr ''Prev'' \<le> 0")
      case True
      with ch sec st show ?thesis by auto
    next
      case False
      with ch sec
      have "load_xref_chain fuel E (save_trailer pdf1 tr) (pdfioDictGetNumber tr ''Prev'')
              = Some (ok1, pdf2)"
        by simp
      from load_xref_chain_trailer_filled [OF this st] show ?thesis .
    qed
    show "pdf_trailer pdf' = Some tr"
    proof (cases ok1)
      case True
      with lx ch have "load_xref_finish (Suc fuel) E pdf2 = Some (ok, pdf')"
        by (simp add: load_xref_def)
      from load_xref_finish_kept [OF this] t2 show ?thesis by simp
    next
      case False
      with lx ch t2 show ?thesis by (simp add: load_xref_def)
    qed
  qed
  show "sorted_wrt (>) (map fst (xref_walk (Suc fuel) E pdf off)) \<longrightarrow>
           trailer_at_highest (xref_walk (Suc fuel) E pdf off) = Some tr"
  proof
    assume s: "sorted_wrt (>) (map fst (xref_walk (Suc fuel) E pdf off))"
    from xref_walk_head [OF sec] obtain rest where
      w: "xref_walk (Suc fuel) E pdf off = (off, tr) # rest" ..
    with s have "\<forall>x \<in> set rest. fst x < fst (off, tr)" by auto
    from fold_highest_first [OF this] w
    show "trailer_at_highest (xref_walk (Suc fuel) E pdf off) = Some tr"
      by (simp add: trailer_at_highest_def)
  qed
qed

theorem C5_trailer_of_first_section_witness:
  "map_option snd
     (load_xref_section (Suc 2) linearized_file (calloc_file\<lparr>pdf_version := Some ''1.4''\<rparr>) 100)
     = Some (Some [(''Size'', VNumber 4), (''Root'', VIndirect 1 0), (''Prev'', VNumber 500)]) \<and>
   pdf_trailer (calloc_file\<lparr>pdf_version := Some ''1.4''\<rparr>) = None \<and>
   map_option (\<lambda>r. pdf_trailer (snd r))
     (load_xref (Suc 2) linearized_file (calloc_file\<lparr>pdf_version := Some ''1.4''\<rparr>) 100)
     = Some (Some [(''Size'', VNumber 4), (''Root'', VIndirect 1 0), (''Prev'', VNumber 500)])"
proof -
  let ?pdf = "calloc_file\<lparr>pdf_version := Some ''1.4''\<rparr>"
  let ?tr = "[(''Size'', VNumber 4), (''Root'', VIndirect 1 0), (''Prev'', VNumber 500)]"
  have s: "map_option snd (load_xref_section (Suc 2) linearized_file ?pdf 100) = Some (Some ?tr)"
    by code_simp
  then obtain pdf1 where
    sec: "load_xref_section (Suc 2) linearized_file ?pdf 100 = Some (pdf1, Some ?tr)"
    by (cases "load_xref_section (Suc 2) linearized_file ?pdf 100") auto
  have empty: "pdf_trailer ?pdf = None"
    by code_simp
  have "load_xref (Suc 2) linearized_file ?pdf 100 \<noteq> None"
    by code_simp
  then obtain ok pdf' where lx: "load_xref (Suc 2) linearized_file ?pdf 100 = Some (ok, pdf')"
    by auto
  from C5_trailer_of_first_section [OF sec]
  have "\<forall>ok pdf'. pdf_trailer ?pdf = None \<and>
          load_xref (Suc 2) linearized_file ?pdf 100 = Some (ok, pdf') \<longrightarrow>
          pdf_trailer pdf' = Some ?tr"
    by blast
  with empty lx have "pdf_trailer pdf' = Some ?tr"
    by blast
  with s empty lx show ?thesis
    by simp
qed

section \<open>Cross-reference streams: /Index\<close>

text \<open>
  C9. With \<open>d\<close> the dictionary of a cross-reference stream: an /Index array of more than
  two elements makes lines 767-779 report that multiple indices are not supported and
  return false, and then the section is not loaded (\<open>load_xref_stream\<close> gives no trailer
  and the report is the one added to the callback's log); an /Index array of at most two
  elements gives its first number as the first object number; without /Index the first
  object number is 0. The loop over the records starts at that number.
\<close>

theorem C9_xref_stream_index:
  "(\<forall>index_array.
      pdfioDictGetArray d ''Index'' = Some index_array \<and> length index_array > 2 \<longrightarrow>
      xref_stream_body E pdf obj d =
        Some (False,
          pdfioFileError pdf ''Multiple indices not supported in cross-reference stream.'')) \<and>
   (\<forall>index_array.
      pdfioDictGetArray d ''Index'' = Some index_array \<and> length index_array \<le> 2 \<longrightarrow>
      xref_index d = Some (pdfioArrayGetNumber index_array 0)) \<and>
   (pdfioDictGetArray d ''Index'' = None \<longrightarrow> xref_index d = Some 0) \<and>
   (\<forall>number w_array st.
      xref_index d = Some number \<and> pdfioDictGetArray d ''W'' = Some w_array \<and>
      \<not> xref_w_invalid (size_t_cast (pdfioArrayGetNumber w_array 0))
           (size_t_cast (pdfioArrayGetNumber w_array 1))
           (size_t_cast (pdfioArrayGetNumber w_array 2)) \<and>
      x_stream_bytes E (pdf_heap pdf ! obj) = Some st \<longrightarrow>
      xref_stream_body E pdf obj d =
        (case xref_records E (size_t_cast (pdfioArrayGetNumber w_array 0))
                (size_t_cast (pdfioArrayGetNumber w_array 1))
                (size_t_cast (pdfioArrayGetNumber w_array 2)) st
                (take 32 (x_stack E @ replicate 32 0)) number [] (stream_opened pdf) of
           None \<Rightarrow> None
         | Some (ok, sobjs, pdf1) \<Rightarrow>
             if ok then Some (load_sobjs E (pdfioStreamClose pdf1) sobjs)
             else Some (False, pdf1))) \<and>
   (\<forall>line number ptr g ptr' p1 p2 index_array off.
      strtoimax line = (number, ptr) \<and> 1 \<le> number \<and> strtol ptr = (g, ptr') \<and>
      0 \<le> int_cast g \<and> int_cast g \<le> 65535 \<and> dropWhile isspace ptr' = ''obj'' \<and>
      x_value E (pdf_pos pdf) = Some (VDict d, p1) \<and> x_token E p1 = Some (''stream'', p2) \<and>
      pdfioDictGetArray d ''Index'' = Some index_array \<and> length index_array > 2 \<longrightarrow>
      map_option (\<lambda>r. (pdf_errors (fst r), snd r)) (load_xref_stream E pdf line off) =
        Some (pdf_errors pdf @ [''Multiple indices not supported in cross-reference stream.''],
              None))"
proof -
  have "\<And>line number ptr g ptr' p1 p2 index_array off.
      strtoimax line = (number, ptr) \<Longrightarrow> 1 \<le> number \<Longrightarrow> strtol ptr = (g, ptr') \<Longrightarrow>
      0 \<le> int_cast g \<Longrightarrow> int_cast g \<le> 65535 \<Longrightarrow> dropWhile isspace ptr' = ''obj'' \<Longrightarrow>
      x_value E (pdf_pos pdf) = Some (VDict d, p1) \<Longrightarrow> x_token E p1 = Some (''stream'', p2) \<Longrightarrow>
      pdfioDictGetArray d ''Index'' = Some index_array \<Longrightarrow> length index_array > 2 \<Longrightarrow>
      map_option (\<lambda>r. (pdf_errors (fst r), snd r)) (load_xref_stream E pdf line off) =
        Some (pdf_errors pdf @ [''Multiple indices not supported in cross-reference stream.''],
              None)"
    by (simp add: load_xref_stream_def xref_stream_body_def xref_index_def add_obj_def Let_def
          pdfioFileError_def set_value_def set_stream_offset_def)
  then show ?thesis
    by (simp add: xref_stream_body_def xref_index_def Let_def)
qed



theorem C9_xref_stream_index_witness:
  "pdfioDictGetArray multi_index_dict ''Index''
     = Some [VNumber 5, VNumber 1, VNumber 6, VNumber 1] \<and>
   length [VNumber 5, VNumber 1, VNumber 6, VNumber 1] > 2 \<and>
   xref_stream_body multi_index_file calloc_file 0 multi_index_dict =
     Some (False,
       pdfioFileError calloc_file ''Multiple indices not supported in cross-reference stream.'') \<and>
   pdfioFileOpen 3 multi_index_file =
     Some (Null [''Multiple indices not supported in cross-reference stream.''] 0)"
proof -
  have a: "pdfioDictGetArray multi_index_dict ''Index''
             = Some [VNumber 5, VNumber 1, VNumber 6, VNumber 1]"
    by code_simp
  have b: "length [VNumber 5, VNumber 1, VNumber 6, VNumber 1] > 2"
    by simp
  have c: "pdfioFileOpen 3 multi_index_file =
             Some (Null [''Multiple indices not supported in cross-reference stream.''] 0)"
    by code_simp
  from C9_xref_stream_index [of multi_index_dict multi_index_file calloc_file 0] a b
  have "xref_stream_body multi_index_file calloc_file 0 multi_index_dict =
          Some (False,
            pdfioFileError calloc_file
              ''Multiple indices not supported in cross-reference stream.'')"
    by blast
  with a b c show ?thesis by simp
qed

section \<open>Classical tables: one entry\<close>

lemma digits_run:
  "\<forall>c \<in> set ds. isdigit c \<Longrightarrow> rest = [] \<or> \<not> isdigit (hd rest) \<Longrightarrow>
   digits acc (ds @ rest) = (foldl (\<lambda>a c. a * 10 + (of_char c - 48)) acc ds, rest)"
proof (induction ds arbitrary: acc)
  case Nil
  then show ?case by (cases rest) auto
next
  case (Cons d ds)
  then show ?case by simp
qed

lemma foldl_digits_bounds:
  "\<forall>c \<in> set ds. isdigit c \<Longrightarrow> 0 \<le> (acc :: int) \<Longrightarrow>
   0 \<le> foldl (\<lambda>a c. a * 10 + (of_char c - 48)) acc ds \<and>
   foldl (\<lambda>a c. a * 10 + (of_char c - 48)) acc ds < (acc + 1) * 10 ^ length ds"
proof (induction ds arbitrary: acc)
  case Nil
  then show ?case by simp
next
  case (Cons d ds)
  from Cons.prems have d: "0 \<le> (of_char d :: int) - 48" "(of_char d :: int) - 48 \<le> 9"
    by (auto simp: isdigit_def)
  with Cons.prems have acc': "0 \<le> acc * 10 + (of_char d - 48)" by simp
  from Cons.prems have "\<forall>c \<in> set ds. isdigit c" by simp
  from Cons.IH [OF this acc']
  have ih: "0 \<le> foldl (\<lambda>a c. a * 10 + (of_char c - 48)) (acc * 10 + (of_char d - 48)) ds"
    "foldl (\<lambda>a c. a * 10 + (of_char c - 48)) (acc * 10 + (of_char d - 48)) ds
       < (acc * 10 + (of_char d - 48) + 1) * 10 ^ length ds"
    by simp_all
  from d have "(acc * 10 + (of_char d - 48) + 1) \<le> (acc + 1) * 10" by simp
  then have "(acc * 10 + (of_char d - 48) + 1) * 10 ^ length ds \<le> (acc + 1) * 10 * 10 ^ length ds"
    by (rule mult_right_mono) simp
  with ih(2)
  have "foldl (\<lambda>a c. a * 10 + (of_char c - 48)) (acc * 10 + (of_char d - 48)) ds
          < (acc + 1) * 10 * 10 ^ length ds"
    by (rule less_le_trans)
  then show ?case using ih(1) by (simp add: algebra_simps)
qed

lemma decimal_bounds:
  "\<forall>c \<in> set ds. isdigit c \<Longrightarrow> 0 \<le> decimal ds \<and> decimal ds < 10 ^ length ds"
  using foldl_digits_bounds [of ds 0] by (simp add: decimal_def)

lemma isdigit_not_space: "isdigit c \<Longrightarrow> \<not> isspace c"
  by (auto simp: isdigit_def isspace_def)

lemma isdigit_not_sign: "isdigit c \<Longrightarrow> c \<noteq> CHR ''-'' \<and> c \<noteq> CHR ''+'' \<and> c \<noteq> CHR '' ''"
  by (auto simp: isdigit_def)

lemma strtoimax_unfold:
  "dropWhile isspace s = u \<Longrightarrow> scan_sign u = (neg, c # cs) \<Longrightarrow> isdigit c \<Longrightarrow>
   digits 0 (c # cs) = (v, r) \<Longrightarrow>
   strtoimax s = (clamp_intmax (if neg then - v else v), r)"
  by (simp add: strtoimax_def del: digits.simps)

lemma strtoimax_digits:
  assumes ds: "\<forall>c \<in> set ds. isdigit c" and ne: "ds \<noteq> []" and short: "length ds \<le> 18"
    and rest: "rest = [] \<or> \<not> isdigit (hd rest)"
    and blanks: "\<forall>c \<in> set bs. isspace c"
  shows "strtoimax (bs @ ds @ rest) = (decimal ds, rest)"
proof -
  obtain d ds' where dd: "ds = d # ds'" using ne by (cases ds) auto
  with ds have d: "isdigit d" by simp
  from decimal_bounds [OF ds] have b: "0 \<le> decimal ds" "decimal ds < 10 ^ length ds"
    by simp_all
  have "(10::int) ^ length ds \<le> 10 ^ 18"
    using short by (intro power_increasing) simp_all
  with b have "decimal ds < 2 ^ 63" by simp
  with b have cl: "clamp_intmax (decimal ds) = decimal ds"
    by (simp add: clamp_intmax_def)
  have dw: "dropWhile isspace (bs @ ds @ rest) = d # ds' @ rest"
    using d dd isdigit_not_space blanks by (simp add: dropWhile_append)
  have sg: "scan_sign (d # ds' @ rest) = (False, d # ds' @ rest)"
    using d isdigit_not_sign by (simp add: scan_sign_def)
  from digits_run [OF ds rest, of 0]
  have dg: "digits 0 (d # ds' @ rest) = (decimal ds, rest)"
    by (simp add: decimal_def dd)
  from strtoimax_unfold [OF dw sg d dg] cl show ?thesis by simp
qed

lemma parse_xref_entry_unfold:
  "drop 18 line = [CHR 0x0D, CHR 0x0A] \<or> drop 18 line = [CHR '' '', CHR 0x0A] \<or>
   drop 18 line = [CHR '' '', CHR 0x0D] \<Longrightarrow>
   strtoimax (take 18 line) = (offset, ptr) \<Longrightarrow> strtol ptr = (g, CHR '' '' # t # r') \<Longrightarrow>
   0 \<le> offset \<Longrightarrow> int_cast g = g \<Longrightarrow> 0 \<le> g \<Longrightarrow>
   parse_xref_entry line =
     (if (t = CHR ''f'' \<or> t = CHR ''n'') \<and> g \<le> 65535 then Some (offset, g, t) else None)"
  by (auto simp: parse_xref_entry_def)

lemma parse_xref_entry_layout:
  assumes o: "length off = 10" "\<forall>c \<in> set off. isdigit c"
    and g: "length gen = 5" "\<forall>c \<in> set gen. isdigit c"
    and eol: "eol = [CHR 0x0D, CHR 0x0A] \<or> eol = [CHR '' '', CHR 0x0A] \<or>
              eol = [CHR '' '', CHR 0x0D]"
  shows "parse_xref_entry (off @ CHR '' '' # gen @ CHR '' '' # t # eol) =
           (if (t = CHR ''f'' \<or> t = CHR ''n'') \<and> decimal gen \<le> 65535
            then Some (decimal off, decimal gen, t) else None)"
proof -
  let ?line = "off @ CHR '' '' # gen @ CHR '' '' # t # eol"
  have nd: "\<not> isdigit CHR '' ''" by (simp add: isdigit_def)
  have ne: "off \<noteq> []" "gen \<noteq> []" using o(1) g(1) by auto
  have d18: "drop 18 ?line = eol" using o(1) g(1) by simp
  have t18: "take 18 ?line = off @ (CHR '' '' # gen @ [CHR '' '', t])" using o(1) g(1) by simp
  have one: "strtoimax (take 18 ?line) = (decimal off, CHR '' '' # gen @ [CHR '' '', t])"
    unfolding t18 using o nd ne strtoimax_digits [of off "CHR '' '' # gen @ [CHR '' '', t]" "[]"]
    by simp
  have two: "strtol (CHR '' '' # gen @ [CHR '' '', t]) = (decimal gen, CHR '' '' # t # [])"
    unfolding strtol_def
    using g nd ne strtoimax_digits [of gen "[CHR '' '', t]" "[CHR '' '']"]
    by (simp add: isspace_def)
  from decimal_bounds [OF o(2)] have ob: "0 \<le> decimal off" by simp
  from decimal_bounds [OF g(2)] g(1) have gb: "0 \<le> decimal gen" "decimal gen < 100000"
    by simp_all
  then have ic: "int_cast (decimal gen) = decimal gen"
    by (simp add: int_cast_def)
  from eol d18 have e: "drop 18 ?line = [CHR 0x0D, CHR 0x0A] \<or>
      drop 18 ?line = [CHR '' '', CHR 0x0A] \<or> drop 18 ?line = [CHR '' '', CHR 0x0D]"
    by metis
  from parse_xref_entry_unfold [OF e one two ob ic gb(1)] show ?thesis .
qed

lemma parse_xref_entry_Some:
  "parse_xref_entry line = Some (offset, generation, t) \<Longrightarrow>
   (drop 18 line = [CHR 0x0D, CHR 0x0A] \<or> drop 18 line = [CHR '' '', CHR 0x0A] \<or>
    drop 18 line = [CHR '' '', CHR 0x0D]) \<and>
   (t = CHR ''f'' \<or> t = CHR ''n'') \<and> 0 \<le> offset \<and> 0 \<le> generation \<and> generation \<le> 65535"
  by (auto simp: parse_xref_entry_def split: if_splits prod.splits list.splits)

text \<open>
  One round of the loop of lines 908-958, where \<open>line\<close> is what \<open>_pdfioFileRead\<close> delivers
  for the entry. The round lets the loop go on only if 20 bytes were read, their last two
  are CR LF, blank LF or blank CR, and the scan of lines 924-947 finds a type character
  \<open>f\<close> or \<open>n\<close>. Twenty bytes that do not pass are reported as a malformed entry and make
  \<open>load_xref\<close> return false. For twenty bytes that pass: type \<open>f\<close> changes nothing; type
  \<open>n\<close> with an object number that \<open>pdfioFileFindObject\<close> finds changes nothing; type \<open>n\<close>
  otherwise adds a record with the offset and generation read. For an entry in the layout
  of the format, ten digits, a blank, five digits, a blank, the type character and one of
  the three line ends, the offset and the generation read are the numbers that the digits
  denote, and the entry passes exactly when its type character is \<open>f\<close> or \<open>n\<close> and its
  generation is at most 65535.
\<close>

lemma xref_table_entry_round:
  assumes line: "line = take 20 (x_read E (pdf_pos pdf) 20)"
    and pdf1: "pdf1 = pdf\<lparr>pdf_pos := pdf_pos pdf + int (length line)\<rparr>"
  shows "(fst (xref_entry E pdf number) \<longrightarrow>
            length line = 20 \<and>
            (drop 18 line = [CHR 0x0D, CHR 0x0A] \<or> drop 18 line = [CHR '' '', CHR 0x0A] \<or>
             drop 18 line = [CHR '' '', CHR 0x0D]) \<and>
            (\<exists>offset generation t.
               parse_xref_entry line = Some (offset, generation, t) \<and>
               (t = CHR ''f'' \<or> t = CHR ''n''))) \<and>
         (length line = 20 \<and> parse_xref_entry line = None \<longrightarrow>
            xref_entry E pdf number =
              (False, pdfioFileError pdf1 ''Malformed xref table entry '%s'.'')) \<and>
         (\<forall>offset generation t.
            length line = 20 \<and> parse_xref_entry line = Some (offset, generation, t) \<longrightarrow>
            xref_entry E pdf number =
              (True,
               if t = CHR ''f'' then pdf1
               else if pdfioFileFindObject pdf1 (size_t_cast number) \<noteq> None then pdf1
               else snd (add_obj pdf1 (size_t_cast number) (ushort_cast generation) offset))) \<and>
         (\<forall>off gen t eol.
            length off = 10 \<and> (\<forall>c \<in> set off. isdigit c) \<and>
            length gen = 5 \<and> (\<forall>c \<in> set gen. isdigit c) \<and>
            (eol = [CHR 0x0D, CHR 0x0A] \<or> eol = [CHR '' '', CHR 0x0A] \<or>
             eol = [CHR '' '', CHR 0x0D]) \<longrightarrow>
            parse_xref_entry (off @ CHR '' '' # gen @ CHR '' '' # t # eol) =
              (if (t = CHR ''f'' \<or> t = CHR ''n'') \<and> decimal gen \<le> 65535
               then Some (decimal off, decimal gen, t) else None))"
proof (intro conjI allI impI)
  assume ok: "fst (xref_entry E pdf number)"
  with line show len: "length line = 20"
    by (auto simp: xref_entry_def Let_def split: if_splits)
  from ok line len obtain offset generation t where
    p: "parse_xref_entry line = Some (offset, generation, t)"
    by (cases "parse_xref_entry line") (auto simp: xref_entry_def Let_def)
  from parse_xref_entry_Some [OF p]
  show "drop 18 line = [CHR 0x0D, CHR 0x0A] \<or> drop 18 line = [CHR '' '', CHR 0x0A] \<or>
        drop 18 line = [CHR '' '', CHR 0x0D]"
    by blast
  from parse_xref_entry_Some [OF p] p
  show "\<exists>offset generation t.
          parse_xref_entry line = Some (offset, generation, t) \<and>
          (t = CHR ''f'' \<or> t = CHR ''n'')"
    by blast
next
  assume "length line = 20 \<and> parse_xref_entry line = None"
  with line pdf1
  show "xref_entry E pdf number =
          (False, pdfioFileError pdf1 ''Malformed xref table entry '%s'.'')"
    by (simp add: xref_entry_def Let_def)
next
  fix offset generation t
  assume "length line = 20 \<and> parse_xref_entry line = Some (offset, generation, t)"
  with line pdf1
  show "xref_entry E pdf number =
          (True,
           if t = CHR ''f'' then pdf1
           else if pdfioFileFindObject pdf1 (size_t_cast number) \<noteq> None then pdf1
           else snd (add_obj pdf1 (size_t_cast number) (ushort_cast generation) offset))"
    by (simp add: xref_entry_def Let_def)
next
  fix off gen t eol
  assume "length off = 10 \<and> (\<forall>c \<in> set off. isdigit c) \<and>
          length gen = 5 \<and> (\<forall>c \<in> set gen. isdigit c) \<and>
          (eol = [CHR 0x0D, CHR 0x0A] \<or> eol = [CHR '' '', CHR 0x0A] \<or>
           eol = [CHR '' '', CHR 0x0D])"
  then show "parse_xref_entry (off @ CHR '' '' # gen @ CHR '' '' # t # eol) =
              (if (t = CHR ''f'' \<or> t = CHR ''n'') \<and> decimal gen \<le> 65535
               then Some (decimal off, decimal gen, t) else None)"
    using parse_xref_entry_layout [of off gen eol t] by blast
qed

text \<open>
  What a round does to the index, for twenty bytes that pass and an index in ascending
  order: an entry of type \<open>f\<close>, or of type \<open>n\<close> for a number that the index holds, leaves
  the heap and the index as they are; an entry of type \<open>n\<close> for a number that the index
  does not hold appends one record with this number, the generation and the offset read,
  and no value, and the index then holds this number too.
\<close>

lemma xref_entry_index:
  assumes len: "length (take 20 (x_read E (pdf_pos pdf) 20)) = 20"
    and p: "parse_xref_entry (take 20 (x_read E (pdf_pos pdf) 20)) = Some (offset, generation, t)"
    and ok: "index_ok pdf"
  shows "(t = CHR ''f'' \<or> size_t_cast number \<in> set (obj_numbers pdf) \<longrightarrow>
            fst (xref_entry E pdf number) \<and>
            pdf_heap (snd (xref_entry E pdf number)) = pdf_heap pdf \<and>
            pdf_objs (snd (xref_entry E pdf number)) = pdf_objs pdf \<and>
            pdf_errors (snd (xref_entry E pdf number)) = pdf_errors pdf) \<and>
         (t = CHR ''n'' \<and> size_t_cast number \<notin> set (obj_numbers pdf) \<longrightarrow>
            fst (xref_entry E pdf number) \<and>
            pdf_heap (snd (xref_entry E pdf number)) =
              pdf_heap pdf @
              [\<lparr>obj_number = size_t_cast number, obj_generation = generation,
                obj_offset = offset, obj_stream_offset = 0, obj_value = VNone\<rparr>] \<and>
            set (obj_numbers (snd (xref_entry E pdf number))) =
              insert (size_t_cast number) (set (obj_numbers pdf)) \<and>
            index_ok (snd (xref_entry E pdf number)) \<and>
            pdfioFileFindObject (snd (xref_entry E pdf number)) (size_t_cast number) \<noteq> None \<and>
            pdf_errors (snd (xref_entry E pdf number)) = pdf_errors pdf)"
proof -
  let ?pdf1 = "pdf\<lparr>pdf_pos := pdf_pos pdf + 20\<rparr>"
  have ok1: "index_ok ?pdf1" using ok by (simp add: index_ok_def obj_numbers_def)
  have nums1: "obj_numbers ?pdf1 = obj_numbers pdf" by (simp add: obj_numbers_def)
  from parse_xref_entry_Some [OF p] have t: "t = CHR ''f'' \<or> t = CHR ''n''"
    and g: "0 \<le> generation" "generation \<le> 65535" by blast+
  from g have cast: "ushort_cast generation = generation" by (simp add: ushort_cast_def)
  have f: "pdfioFileFindObject ?pdf1 (size_t_cast number) \<noteq> None \<longleftrightarrow>
             size_t_cast number \<in> set (obj_numbers pdf)"
    using find_None [OF ok1, of "size_t_cast number"] by (simp add: nums1)
  have e: "xref_entry E pdf number =
             (True,
              if t = CHR ''f'' then ?pdf1
              else if size_t_cast number \<in> set (obj_numbers pdf) then ?pdf1
              else snd (add_obj ?pdf1 (size_t_cast number) generation offset))"
    using len p f by (simp add: xref_entry_def Let_def cast)
  let ?pdf2 = "snd (add_obj ?pdf1 (size_t_cast number) generation offset)"
  have n2: "set (obj_numbers ?pdf2) = insert (size_t_cast number) (set (obj_numbers pdf))"
    by (simp add: add_obj_numbers [OF ok1] nums1)
  have ok2: "index_ok ?pdf2" by (rule add_obj_index_ok [OF ok1])
  have f2: "pdfioFileFindObject ?pdf2 (size_t_cast number) \<noteq> None"
    using find_None [OF ok2, of "size_t_cast number"] n2 by simp
  show ?thesis
    using t n2 ok2 f2 by (auto simp: e add_obj_heap)
qed

text \<open>
  C6: an entry is accepted only as 20 bytes in the layout, and anything else fails with a
  report of a malformed entry. \<open>cut_table_file\<close> ends after 10 bytes of the first entry of
  its table: \<open>_pdfioFileRead\<close> delivers 10 bytes, line 912 returns false without a call of
  \<open>_pdfioFileError\<close>, and \<open>pdfioFileOpen\<close> returns \<open>NULL\<close> with no report at all. An entry
  of 20 bytes with the type character \<open>x\<close> (\<open>bad_type_file\<close>) is reported once, as the
  claim says.
\<close>

theorem C6_short_entry_not_reported:
  "x_read cut_table_file 31 20 = ''0000000000'' \<and>
   pdfioFileOpen 3 cut_table_file = Some (Null [] 0) \<and>
   pdfioFileOpen 3 bad_type_file = Some (Null [''Malformed xref table entry '%s'.''] 0)"
  by code_simp
section \<open>Object streams\<close>



















section \<open>Cross-reference streams: the queue of object streams\<close>

lemma enqueue_sobj_queue_ok: "queue_ok sobjs \<Longrightarrow> queue_ok (enqueue_sobj sobjs parent)"
  by (auto simp: queue_ok_def enqueue_sobj_def)

lemma xref_record_queue_ok:
  "xref_record E w0 w1 w2 buffer number sobjs pdf = Some (ok, sobjs', pdf') \<Longrightarrow>
   queue_ok sobjs \<Longrightarrow> queue_ok sobjs'"
  by (auto simp: xref_record_def enqueue_sobj_queue_ok
           split: if_splits option.splits prod.splits)

lemma xref_records_queue_ok:
  "xref_records E w0 w1 w2 st buffer number sobjs pdf = Some (ok, sobjs', pdf') \<Longrightarrow>
   queue_ok sobjs \<Longrightarrow> queue_ok sobjs'"
proof (induction E w0 w1 w2 st buffer number sobjs pdf arbitrary: ok sobjs' pdf'
       rule: xref_records.induct)
  case (1 E w0 w1 w2 st buffer number sobjs pdf)
  let ?buf = "take (nat (w_total w0 w1 w2)) st @
              drop (length (take (nat (w_total w0 w1 w2)) st)) buffer"
  show ?case
  proof (cases "take (nat (w_total w0 w1 w2)) st = []")
    case True
    with 1(2,3) show ?thesis by (simp add: xref_records.simps)
  next
    case False
    from False 1(2) obtain ok1 sobjs1 pdf1 where
      rec: "xref_record E w0 w1 w2 ?buf number sobjs pdf = Some (ok1, sobjs1, pdf1)"
      by (subst (asm) xref_records.simps) (auto split: option.splits)
    note q1 = xref_record_queue_ok [OF rec 1(3)]
    show ?thesis
    proof (cases ok1)
      case True
      with False rec 1(2)
      have "xref_records E w0 w1 w2 (drop (nat (w_total w0 w1 w2)) st) ?buf (number + 1)
              sobjs1 pdf1 = Some (ok, sobjs', pdf')"
        by (subst (asm) xref_records.simps) simp
      from 1(1) [OF False rec refl refl True this q1] show ?thesis .
    next
      case False
      with \<open>take (nat (w_total w0 w1 w2)) st \<noteq> []\<close> rec 1(2) have "sobjs' = sobjs1"
        by (subst (asm) xref_records.simps) simp
      with q1 show ?thesis by simp
    qed
  qed
qed

text \<open>A pass over a cross-reference stream with more than 1000 parents: the records of
  type 2 and of type 1 of \<open>full_queue_file\<close>, one after the other.\<close>

lemma uint_byte: "uint (word_of_int x :: byte) = x mod 256"
  by (simp add: uint_word_of_int take_bit_eq_mod)

lemma two_bytes:
  "0 \<le> p \<Longrightarrow> p < 65536 \<Longrightarrow>
     p div 256 mod 256 * 256 + p mod 256 = (p :: int) \<and>
     (p div 256 mod 256 * 256 + p mod 256) mod 2 ^ 64 = p"
proof -
  assume p: "0 \<le> p" "p < 65536"
  then have "p div 256 < 256" by simp
  moreover from p have "0 \<le> p div 256" by simp
  ultimately have "p div 256 mod 256 = p div 256" by simp
  then have e: "p div 256 mod 256 = p div 256" .
  have "p div 256 * 256 + p mod 256 = p" by (rule div_mult_mod_eq)
  with e have "p div 256 mod 256 * 256 + p mod 256 = p" by simp
  with p show ?thesis by simp
qed

lemma decode_record:
  assumes p: "0 \<le> p" "p < 65536" and t: "t = 1 \<or> t = 2"
  shows "buffer_at ([word_of_int t, word_of_int (p div 256), word_of_int p] @ r) 0 = Some t"
    and "xref_offset_field ([word_of_int t, word_of_int (p div 256), word_of_int p] @ r) 1 2 = Some p"
    and "xref_generation_field ([word_of_int t, word_of_int (p div 256), word_of_int p] @ r)
           ((1 + 2) mod 2 ^ 64) 0 = Some 0"
proof -
  from t show "buffer_at ([word_of_int t, word_of_int (p div 256), word_of_int p] @ r) 0 = Some t"
    by (auto simp: buffer_at_def uint_byte)
  have one: "nat (2 - 1 :: int) = Suc 0" by simp
  have b1: "buffer_at ([word_of_int t, word_of_int (p div 256), word_of_int p] @ r) 1
              = Some (p div 256 mod 256)"
    by (simp add: buffer_at_def uint_byte)
  have b2: "buffer_at ([word_of_int t, word_of_int (p div 256), word_of_int p] @ r) 2
              = Some (p mod 256)"
    by (simp add: buffer_at_def uint_byte)
  show "xref_offset_field ([word_of_int t, word_of_int (p div 256), word_of_int p] @ r) 1 2 = Some p"
    unfolding xref_offset_field_def one
    using p by (simp add: b1 b2 two_bytes [OF p] del: append.simps)
  show "xref_generation_field ([word_of_int t, word_of_int (p div 256), word_of_int p] @ r)
           ((1 + 2) mod 2 ^ 64) 0 = Some 0"
    by (simp add: xref_generation_field_def)
qed

lemma type2_step:
  assumes p: "0 \<le> p" "p < 65536"
    and n: "pdfioFileFindObject pdf (size_t_cast number) = None"
    and f: "pdfioFileFindObject pdf p = None"
  shows "xref_record E 1 2 0 (type2_record p @ r) number sobjs pdf =
           Some (True, enqueue_sobj sobjs p, pdf)"
  using decode_record [OF p, of 2 r] n f
  by (simp add: xref_record_def type2_record_def del: append.simps)

lemma type1_step:
  assumes p: "0 \<le> p" "p < 65536"
    and n: "pdfioFileFindObject pdf (size_t_cast number) = None"
  shows "xref_record E 1 2 0 (type1_record p @ r) number sobjs pdf =
           Some (True, sobjs, snd (add_obj pdf (size_t_cast number) 0 p))"
proof -
  from p have "intmax_cast p = p" by (simp add: intmax_cast_def)
  then show ?thesis
    using decode_record [OF p, of 1 r] n
    by (simp add: xref_record_def type1_record_def ushort_cast_def del: append.simps)
qed

lemma w_total_3: "nat (w_total 1 2 0) = 3"
  by (simp add: w_total_def)

lemma xref_records_full_record:
  assumes len: "length rec = 3"
  shows "xref_records E 1 2 0 (rec @ st) buffer number sobjs pdf =
           (case xref_record E 1 2 0 (rec @ drop 3 buffer) number sobjs pdf of
              None \<Rightarrow> None
            | Some (ok, sobjs', pdf') \<Rightarrow>
                if ok then xref_records E 1 2 0 st (rec @ drop 3 buffer) (number + 1) sobjs' pdf'
                else Some (False, sobjs', pdf'))"
proof -
  from len have ne: "rec \<noteq> []" by auto
  show ?thesis
    by (subst xref_records.simps) (simp add: w_total_3 len ne split: option.split prod.split)
qed


lemma add_obj_unloaded: "unloaded N pdf \<Longrightarrow> unloaded N (snd (add_obj pdf n g off))"
  by (simp add: unloaded_def add_obj_heap)

lemma fold_enqueue_full:
  "length sobjs = 1000 \<Longrightarrow> fold (\<lambda>p s. enqueue_sobj s p) ps sobjs = sobjs"
  by (induction ps) (simp_all add: enqueue_sobj_def)

lemma fold_enqueue_distinct:
  "distinct (sobjs @ ps) \<Longrightarrow> length sobjs \<le> 1000 \<Longrightarrow>
     fold (\<lambda>p s. enqueue_sobj s p) ps sobjs = take 1000 (sobjs @ ps)"
proof (induction ps arbitrary: sobjs)
  case Nil
  then show ?case by simp
next
  case (Cons p ps)
  from Cons.prems have fresh: "p \<notin> set sobjs" by simp
  show ?case
  proof (cases "length sobjs < 1000")
    case True
    with fresh have e: "enqueue_sobj sobjs p = sobjs @ [p]" by (simp add: enqueue_sobj_def)
    from Cons.prems True have "distinct ((sobjs @ [p]) @ ps)" "length (sobjs @ [p]) \<le> 1000"
      by simp_all
    from Cons.IH [OF this] e show ?thesis by simp
  next
    case False
    with Cons.prems have len: "length sobjs = 1000" by simp
    then have e: "enqueue_sobj sobjs p = sobjs" by (simp add: enqueue_sobj_def)
    from len show ?thesis by (simp add: e fold_enqueue_full)
  qed
qed

lemma type2_run:
  assumes ok: "index_ok pdf" and ps: "\<forall>p \<in> set ps. 0 \<le> p \<and> p < 65536 \<and> p \<notin> set (obj_numbers pdf)"
    and ns: "\<forall>i. 0 \<le> i \<and> i < int (length ps) \<longrightarrow> size_t_cast (number + i) \<notin> set (obj_numbers pdf)"
  shows "\<exists>buffer'. xref_records E 1 2 0 (concat (map type2_record ps) @ st) buffer number sobjs pdf =
           xref_records E 1 2 0 st buffer' (number + int (length ps))
             (fold (\<lambda>p s. enqueue_sobj s p) ps sobjs) pdf"
  using ps ns
proof (induction ps arbitrary: buffer number sobjs)
  case Nil
  show ?case by (intro exI [of _ buffer]) simp
next
  case (Cons p ps)
  from Cons.prems(1) have p: "0 \<le> p" "p < 65536" "pdfioFileFindObject pdf p = None"
    by (simp_all add: find_None [OF ok])
  from Cons.prems(2) [rule_format, of 0]
  have n: "pdfioFileFindObject pdf (size_t_cast number) = None"
    by (simp add: find_None [OF ok])
  have len: "length (type2_record p) = 3" by (simp add: type2_record_def)
  have rest: "\<forall>i. 0 \<le> i \<and> i < int (length ps) \<longrightarrow>
                size_t_cast (number + 1 + i) \<notin> set (obj_numbers pdf)"
  proof (intro allI impI)
    fix i assume "0 \<le> i \<and> i < int (length ps)"
    then have "0 \<le> i + 1 \<and> i + 1 < int (length (p # ps))" by simp
    from Cons.prems(2) [rule_format, OF this] show "size_t_cast (number + 1 + i) \<notin> set (obj_numbers pdf)"
      by (simp add: ac_simps)
  qed
  from Cons.prems(1) have ps': "\<forall>p \<in> set ps. 0 \<le> p \<and> p < 65536 \<and> p \<notin> set (obj_numbers pdf)"
    by simp
  from Cons.IH [OF ps' rest, of "type2_record p @ drop 3 buffer" "enqueue_sobj sobjs p"]
  obtain buffer' where
    ih: "xref_records E 1 2 0 (concat (map type2_record ps) @ st)
           (type2_record p @ drop 3 buffer) (number + 1) (enqueue_sobj sobjs p) pdf =
         xref_records E 1 2 0 st buffer' (number + 1 + int (length ps))
           (fold (\<lambda>p s. enqueue_sobj s p) ps (enqueue_sobj sobjs p)) pdf"
    by blast
  have "xref_records E 1 2 0 (concat (map type2_record (p # ps)) @ st) buffer number sobjs pdf =
        xref_records E 1 2 0 (type2_record p @ (concat (map type2_record ps) @ st)) buffer number sobjs pdf"
    by simp
  also have "\<dots> = xref_records E 1 2 0 (concat (map type2_record ps) @ st)
           (type2_record p @ drop 3 buffer) (number + 1) (enqueue_sobj sobjs p) pdf"
    by (simp only: xref_records_full_record [OF len] type2_step [OF p(1,2) n p(3)]) simp
  also note ih
  finally show ?case
    by (intro exI [of _ buffer']) (simp add: ac_simps)
qed

lemma type1_run:
  assumes os: "\<forall>p \<in> set os. 0 \<le> p \<and> p < 65536"
    and ns: "\<forall>i. 0 \<le> i \<and> i < int (length os) \<longrightarrow> number + i \<notin> set (obj_numbers pdf)"
    and lo: "0 \<le> number" and hi: "number + int (length os) \<le> 2 ^ 64"
    and ok: "index_ok pdf" and un: "unloaded N pdf"
  shows "\<exists>pdf'. xref_records E 1 2 0 (concat (map type1_record os)) buffer number sobjs pdf =
                   Some (True, sobjs, pdf') \<and>
                 index_ok pdf' \<and> unloaded N pdf' \<and>
                 set (obj_numbers pdf') =
                   set (obj_numbers pdf) \<union> {number ..< number + int (length os)} \<and>
                 pdf_errors pdf' = pdf_errors pdf \<and> pdf_streams pdf' = pdf_streams pdf \<and>
                 pdf_trailer pdf' = pdf_trailer pdf \<and> pdf_version pdf' = pdf_version pdf"
  using os ns lo hi ok un
proof (induction os arbitrary: buffer number pdf)
  case Nil
  show ?case
    by (subst xref_records.simps) (simp add: Nil.prems)
next
  case (Cons p os)
  let ?pdf1 = "snd (add_obj pdf (size_t_cast number) 0 p)"
  from Cons.prems(1) have p: "0 \<le> p" "p < 65536" by simp_all
  from Cons.prems(3,4) have cast: "size_t_cast number = number"
    by (simp add: size_t_cast_def)
  from Cons.prems(2) [rule_format, of 0]
  have n: "pdfioFileFindObject pdf (size_t_cast number) = None"
    by (simp add: find_None [OF Cons.prems(5)] cast)
  have len: "length (type1_record p) = 3" by (simp add: type1_record_def)
  have nums1: "set (obj_numbers ?pdf1) = insert number (set (obj_numbers pdf))"
    by (simp add: add_obj_numbers [OF Cons.prems(5)] cast)
  have rest: "\<forall>i. 0 \<le> i \<and> i < int (length os) \<longrightarrow>
                number + 1 + i \<notin> set (obj_numbers ?pdf1)"
  proof (intro allI impI)
    fix i assume i: "0 \<le> i \<and> i < int (length os)"
    then have "0 \<le> i + 1 \<and> i + 1 < int (length (p # os))" by simp
    from Cons.prems(2) [rule_format, OF this] i show "number + 1 + i \<notin> set (obj_numbers ?pdf1)"
      by (simp add: nums1 ac_simps)
  qed
  from Cons.prems(1) have os': "\<forall>p \<in> set os. 0 \<le> p \<and> p < 65536" by simp
  from Cons.prems(3) have lo': "0 \<le> number + 1" by simp
  from Cons.prems(4) have hi': "number + 1 + int (length os) \<le> 2 ^ 64" by simp
  from Cons.IH [OF os' rest lo' hi' add_obj_index_ok [OF Cons.prems(5)]
                  add_obj_unloaded [OF Cons.prems(6)],
                of "type1_record p @ drop 3 buffer"]
  obtain pdf' where
    run: "xref_records E 1 2 0 (concat (map type1_record os))
            (type1_record p @ drop 3 buffer) (number + 1) sobjs ?pdf1 = Some (True, sobjs, pdf')"
    and ok': "index_ok pdf'" and un': "unloaded N pdf'"
    and nums': "set (obj_numbers pdf') =
                  set (obj_numbers ?pdf1) \<union> {number + 1 ..< number + 1 + int (length os)}"
    and frame: "pdf_errors pdf' = pdf_errors ?pdf1" "pdf_streams pdf' = pdf_streams ?pdf1"
               "pdf_trailer pdf' = pdf_trailer ?pdf1" "pdf_version pdf' = pdf_version ?pdf1"
    by blast
  have "xref_records E 1 2 0 (concat (map type1_record (p # os))) buffer number sobjs pdf =
        xref_records E 1 2 0 (type1_record p @ concat (map type1_record os)) buffer number sobjs pdf"
    by simp
  also have "\<dots> = xref_records E 1 2 0 (concat (map type1_record os))
           (type1_record p @ drop 3 buffer) (number + 1) sobjs ?pdf1"
    by (simp only: xref_records_full_record [OF len] type1_step [OF p n]) simp
  also note run
  finally have r: "xref_records E 1 2 0 (concat (map type1_record (p # os))) buffer number sobjs pdf =
                     Some (True, sobjs, pdf')" .
  have set: "set (obj_numbers pdf') =
               set (obj_numbers pdf) \<union> {number ..< number + int (length (p # os))}"
    using nums' nums1 by auto
  from r ok' un' set frame show ?case
    by (intro exI [of _ pdf']) (simp add: add_obj_heap)
qed


lemma digit_char:
  "d < 10 \<Longrightarrow> isdigit (char_of (48 + int d)) \<and> of_char (char_of (48 + int d)) = 48 + int d"
  by (simp add: isdigit_def)

lemma digits_of_digits: "\<forall>c \<in> set (digits_of n). isdigit c"
proof (induction n rule: digits_of.induct)
  case (1 n)
  show ?case
  proof (cases "n < 10")
    case True
    then show ?thesis by (subst digits_of.simps) (simp add: digit_char)
  next
    case False
    have "n mod 10 < 10" by simp
    from digit_char [OF this] 1 [OF False] False show ?thesis
      by (subst digits_of.simps) simp
  qed
qed

lemma digits_of_ne: "digits_of n \<noteq> []"
  by (subst digits_of.simps) simp

lemma digits_of_decimal: "decimal (digits_of n) = int n"
proof (induction n rule: digits_of.induct)
  case (1 n)
  show ?case
  proof (cases "n < 10")
    case True
    then show ?thesis by (subst digits_of.simps) (simp add: decimal_def digit_char)
  next
    case False
    have m: "n mod 10 < 10" by simp
    from 1 [OF False] have ih: "foldl (\<lambda>a c. a * 10 + (of_char c - 48)) 0 (digits_of (n div 10)) = int (n div 10)"
      by (simp add: decimal_def)
    have "decimal (digits_of n) = int (n div 10) * 10 + int (n mod 10)"
      using False digit_char [OF m] by (subst digits_of.simps) (simp add: decimal_def ih)
    also have "\<dots> = int n" by (simp add: zdiv_int zmod_int)
    finally show ?thesis .
  qed
qed

lemma digits_of_length: "n < 10 ^ Suc k \<Longrightarrow> length (digits_of n) \<le> Suc k"
proof (induction k arbitrary: n)
  case 0
  then show ?case by (subst digits_of.simps) simp
next
  case (Suc k)
  show ?case
  proof (cases "n < 10")
    case True
    then show ?thesis by (subst digits_of.simps) simp
  next
    case False
    from Suc.prems have "n div 10 < 10 ^ Suc k" by (simp add: less_mult_imp_div_less)
    from Suc.IH [OF this] False show ?thesis by (subst digits_of.simps) simp
  qed
qed

lemma strtoimax_digits_of:
  assumes "n < 10000"
  shows "strtoimax (digits_of n) = (int n, [])"
proof -
  from assms have "n < 10 ^ Suc 3" by simp
  from digits_of_length [OF this] have short: "length (digits_of n) \<le> 18" by simp
  have "strtoimax ([] @ digits_of n @ []) = (decimal (digits_of n), [])"
    by (rule strtoimax_digits [OF digits_of_digits digits_of_ne short]) simp_all
  then show ?thesis by (simp add: digits_of_decimal)
qed


lemma isdigit_digits_of_hd: "isdigit (hd (digits_of n))"
  using digits_of_digits [of n] digits_of_ne [of n] by (cases "digits_of n") simp_all

lemma not_digit_null: "\<not> isdigit CHR ''n''"
  by (simp add: isdigit_def)

lemma load_obj_stream_single:
  assumes s: "obj_number (pdf_heap pdf ! a) = s" and lo: "1002 \<le> s" and hi: "s \<le> 2001"
  shows "load_obj_stream full_queue_file pdf a =
           (True, pdfioStreamClose
                    (set_value (snd (add_obj (stream_opened pdf) (s - 1001) 0 0))
                       (length (pdf_heap pdf)) VNull))"
proof -
  from lo hi have "nat (s - 1001) < 10000" by simp
  from strtoimax_digits_of [OF this] lo
  have num: "size_t_cast (fst (strtoimax (digits_of (nat (s - 1001))))) = s - 1001"
    using hi by (simp add: size_t_cast_def)
  have toks: "x_stream_tokens full_queue_file (pdf_heap pdf ! a) =
                Some [digits_of (nat (s - 1001)), ''0'', ''null'']"
    by (simp add: full_queue_file_def s)
  have parse: "x_parse full_queue_file [''null''] = Some (VNull, [])"
    by (simp add: full_queue_file_def)
  have "fst (add_obj (stream_opened pdf) (s - 1001) 0 0) = length (pdf_heap pdf)"
    by (simp add: add_obj_heap stream_opened_def)
  then obtain pdf1 where a: "add_obj (stream_opened pdf) (s - 1001) 0 0 = (length (pdf_heap pdf), pdf1)"
    by (cases "add_obj (stream_opened pdf) (s - 1001) 0 0") simp
  have rn: "read_numbers (stream_opened pdf) [digits_of (nat (s - 1001)), ''0'', ''null''] [] =
              (pdf1, Some (''null'', [], [length (pdf_heap pdf)]))"
    by (simp add: digits_of_ne isdigit_digits_of_hd num not_digit_null a)
  have "load_obj_stream full_queue_file pdf a =
          (True, pdfioStreamClose (set_value pdf1 (length (pdf_heap pdf)) VNull))"
    by (simp add: load_obj_stream_def toks rn parse del: read_numbers.simps)
  with a show ?thesis by simp
qed

lemma streams_unloaded [simp]:
  "unloaded N (stream_opened pdf) = unloaded N pdf"
  "unloaded N (pdfioStreamClose pdf) = unloaded N pdf"
  by (simp_all add: unloaded_def stream_opened_def pdfioStreamClose_def)

lemma set_value_new_unloaded:
  assumes un: "unloaded N pdf" and k: "k \<notin> N"
  shows "unloaded N (set_value (snd (add_obj pdf k g off)) (length (pdf_heap pdf)) v)"
  using un k by (auto simp: unloaded_def add_obj_heap)

lemma load_sobjs_run:
  assumes ss: "\<forall>s \<in> set ss. s \<in> set (obj_numbers pdf) \<and> 1002 \<le> s \<and> s \<le> 2001"
    and ok: "index_ok pdf" and un: "unloaded N pdf" and N: "\<forall>k \<in> N. k > 1000"
  shows "\<exists>pdf'. load_sobjs full_queue_file pdf ss = (True, pdf') \<and>
                 index_ok pdf' \<and> unloaded N pdf' \<and>
                 set (obj_numbers pdf') = set (obj_numbers pdf) \<union> (\<lambda>s. s - 1001) ` set ss \<and>
                 pdf_errors pdf' = pdf_errors pdf \<and> pdf_streams pdf' = pdf_streams pdf \<and>
                 pdf_trailer pdf' = pdf_trailer pdf \<and> pdf_version pdf' = pdf_version pdf"
  using ss ok un
proof (induction ss arbitrary: pdf)
  case Nil
  then show ?case by simp
next
  case (Cons s ss)
  let ?pdf1 = "pdfioStreamClose
                 (set_value (snd (add_obj (stream_opened pdf) (s - 1001) 0 0))
                    (length (pdf_heap pdf)) VNull)"
  from Cons.prems(1) have s: "s \<in> set (obj_numbers pdf)" "1002 \<le> s" "s \<le> 2001" by simp_all
  from s(1) obtain a where f: "pdfioFileFindObject pdf s = Some a"
    using find_None [OF Cons.prems(2), of s] by (cases "pdfioFileFindObject pdf s") auto
  from find_Some [OF f] have num: "obj_number (pdf_heap pdf ! a) = s" by simp
  note ld = load_obj_stream_single [OF num s(2,3)]
  from Cons.prems(2) have ok0: "index_ok (stream_opened pdf)" by simp
  have ok1: "index_ok ?pdf1"
    by (simp add: set_value_index_ok add_obj_index_ok [OF ok0])
  from s(3) N have fresh: "s - 1001 \<notin> N" by auto
  have h: "pdf_heap (stream_opened pdf) = pdf_heap pdf" by (simp add: stream_opened_def)
  from Cons.prems(3) have "unloaded N (stream_opened pdf)" by simp
  from set_value_new_unloaded [OF this fresh, where g = 0 and off = 0 and v = VNull]
  have un1: "unloaded N ?pdf1" by (simp add: h)
  have nums1: "set (obj_numbers ?pdf1) = insert (s - 1001) (set (obj_numbers pdf))"
    by (simp add: add_obj_numbers [OF ok0])
  from Cons.prems(1) nums1
  have ss': "\<forall>s \<in> set ss. s \<in> set (obj_numbers ?pdf1) \<and> 1002 \<le> s \<and> s \<le> 2001"
    by simp
  from Cons.IH [OF ss' ok1 un1] obtain pdf' where
    run: "load_sobjs full_queue_file ?pdf1 ss = (True, pdf')"
    and ok': "index_ok pdf'" and un': "unloaded N pdf'"
    and nums': "set (obj_numbers pdf') = set (obj_numbers ?pdf1) \<union> (\<lambda>s. s - 1001) ` set ss"
    and frame: "pdf_errors pdf' = pdf_errors ?pdf1" "pdf_streams pdf' = pdf_streams ?pdf1"
               "pdf_trailer pdf' = pdf_trailer ?pdf1" "pdf_version pdf' = pdf_version ?pdf1"
    by blast
  have r: "load_sobjs full_queue_file pdf (s # ss) = (True, pdf')"
    by (simp add: f ld run)
  have fr: "pdf_errors ?pdf1 = pdf_errors pdf" "pdf_streams ?pdf1 = pdf_streams pdf"
    by (simp_all add: pdfioStreamClose_def add_obj_heap stream_opened_def)
  from r ok' un' nums' nums1 frame fr show ?case
    by (intro exI [of _ pdf']) auto
qed


declare upto_rec_numeral [simp del]

lemma full_queue: "fold (\<lambda>p s. enqueue_sobj s p) [1002..2002] [] = [1002..2001]"
proof -
  have split: "[1002..2002] = [1002..2001] @ [2002 :: int]"
    using upto_rec2 [of 1002 2002] by simp
  have "fold (\<lambda>p s. enqueue_sobj s p) [1002..2002] [] = take 1000 ([] @ [1002..2002])"
    by (rule fold_enqueue_distinct) simp_all
  also have "\<dots> = [1002..2001]"
    by (simp only: split append_Nil) simp
  finally show ?thesis .
qed

lemma full_queue_pass:
  assumes nums: "set (obj_numbers pdf) = {3000}" and ok: "index_ok pdf" and un: "unloaded N pdf"
  shows "\<exists>pdf'. xref_records E 1 2 0 full_queue_bytes buffer 1 [] pdf =
                   Some (True, [1002..2001], pdf') \<and>
                 index_ok pdf' \<and> unloaded N pdf' \<and>
                 set (obj_numbers pdf') = {3000} \<union> {1002..2004} \<and>
                 pdf_errors pdf' = pdf_errors pdf \<and> pdf_streams pdf' = pdf_streams pdf \<and>
                 pdf_trailer pdf' = pdf_trailer pdf \<and> pdf_version pdf' = pdf_version pdf"
proof -
  let ?st = "concat (map type1_record (map (\<lambda>n. 10 * n) [1002..2004]))"
  have ps: "\<forall>p \<in> set [1002..2002]. 0 \<le> p \<and> p < 65536 \<and> p \<notin> set (obj_numbers pdf)"
    by (simp add: nums)
  have ns: "\<forall>i. 0 \<le> i \<and> i < int (length [1002..2002 :: int]) \<longrightarrow>
              size_t_cast (1 + i) \<notin> set (obj_numbers pdf)"
    by (simp add: nums size_t_cast_def)
  from type2_run [OF ok ps ns, of E ?st buffer "[]"] obtain buffer' where
    a: "xref_records E 1 2 0 full_queue_bytes buffer 1 [] pdf =
          xref_records E 1 2 0 ?st buffer' 1002 [1002..2001] pdf"
    by (auto simp: full_queue_bytes_def full_queue)
  have os: "\<forall>p \<in> set (map (\<lambda>n. 10 * n) [1002..2004]). 0 \<le> p \<and> p < 65536"
    by auto
  have ns1: "\<forall>i. 0 \<le> i \<and> i < int (length (map (\<lambda>n. 10 * n) [1002..2004 :: int])) \<longrightarrow>
               1002 + i \<notin> set (obj_numbers pdf)"
    by (simp add: nums)
  have hi: "1002 + int (length (map (\<lambda>n. 10 * n) [1002..2004 :: int])) \<le> 2 ^ 64"
    by simp
  from type1_run [OF os ns1 _ hi ok un, of E buffer' "[1002..2001]"] obtain pdf' where
    b: "xref_records E 1 2 0 ?st buffer' 1002 [1002..2001] pdf = Some (True, [1002..2001], pdf')"
    and rest: "index_ok pdf'" "unloaded N pdf'"
      "set (obj_numbers pdf') =
         set (obj_numbers pdf) \<union>
         {1002 ..< 1002 + int (length (map (\<lambda>n. 10 * n) [1002..2004 :: int]))}"
      "pdf_errors pdf' = pdf_errors pdf" "pdf_streams pdf' = pdf_streams pdf"
      "pdf_trailer pdf' = pdf_trailer pdf" "pdf_version pdf' = pdf_version pdf"
    by auto
  have "{1002 ..< 1002 + int (length (map (\<lambda>n. 10 * n) [1002..2004 :: int]))} = {1002..2004 :: int}"
    by auto
  with a b rest nums show ?thesis
    by (intro exI [of _ pdf']) simp
qed

lemma full_queue_dict_facts:
  "xref_index full_queue_dict = Some 1"
  "pdfioDictGetArray full_queue_dict ''W'' = Some [VNumber 1, VNumber 2, VNumber 0]"
  "size_t_cast (pdfioArrayGetNumber [VNumber 1, VNumber 2, VNumber 0] 0) = 1"
  "size_t_cast (pdfioArrayGetNumber [VNumber 1, VNumber 2, VNumber 0] 1) = 2"
  "size_t_cast (pdfioArrayGetNumber [VNumber 1, VNumber 2, VNumber 0] (Suc 0)) = 2"
  "size_t_cast (pdfioArrayGetNumber [VNumber 1, VNumber 2, VNumber 0] 2) = 0"
  "xref_w_invalid 1 2 0 = False"
  "pdfioDictGetNumber full_queue_dict ''Prev'' = 0"
  "map_of full_queue_dict ''Root'' = Some (VIndirect 2003 0)"
  "map_of full_queue_dict ''Info'' = None"
  "map_of full_queue_dict ''Encrypt'' = None"
  "pdfioDictGetArray full_queue_dict ''ID'' = None"
  by code_simp+

lemma full_queue_body:
  assumes obj: "obj_number (pdf_heap pdf ! obj) = 3000"
    and nums: "set (obj_numbers pdf) = {3000}" and ok: "index_ok pdf"
    and un: "unloaded {2003, 2004} pdf"
  shows "\<exists>pdf'. xref_stream_body full_queue_file pdf obj full_queue_dict = Some (True, pdf') \<and>
                 index_ok pdf' \<and> unloaded {2003, 2004} pdf' \<and>
                 set (obj_numbers pdf') = {3000} \<union> {1002..2004} \<union> {1..1000} \<and>
                 pdf_errors pdf' = pdf_errors pdf \<and> pdf_streams pdf' = pdf_streams pdf \<and>
                 pdf_trailer pdf' = pdf_trailer pdf \<and> pdf_version pdf' = pdf_version pdf"
proof -
  let ?N = "{2003, 2004 :: int}"
  let ?buffer = "take 32 (x_stack full_queue_file) @
                 replicate (32 - length (x_stack full_queue_file)) 0"
  have bytes: "x_stream_bytes full_queue_file (pdf_heap pdf ! obj) = Some full_queue_bytes"
    by (simp add: full_queue_file_def obj)
  from full_queue_pass [of "stream_opened pdf" ?N full_queue_file ?buffer] nums ok un
  obtain pdf1 where
    pass: "xref_records full_queue_file 1 2 0 full_queue_bytes ?buffer 1 [] (stream_opened pdf) =
             Some (True, [1002..2001], pdf1)"
    and p1: "index_ok pdf1" "unloaded ?N pdf1"
      "set (obj_numbers pdf1) = {3000} \<union> {1002..2004}"
      "pdf_errors pdf1 = pdf_errors (stream_opened pdf)"
      "pdf_streams pdf1 = pdf_streams (stream_opened pdf)"
      "pdf_trailer pdf1 = pdf_trailer (stream_opened pdf)"
      "pdf_version pdf1 = pdf_version (stream_opened pdf)"
    by auto
  have ss: "\<forall>s \<in> set [1002..2001]. s \<in> set (obj_numbers (pdfioStreamClose pdf1)) \<and>
              1002 \<le> s \<and> s \<le> 2001"
    by (simp add: p1(3))
  have N: "\<forall>k \<in> ?N. k > 1000" by simp
  from load_sobjs_run [OF ss _ _ N] p1(1,2)
  obtain pdf' where
    ld: "load_sobjs full_queue_file (pdfioStreamClose pdf1) [1002..2001] = (True, pdf')"
    and p': "index_ok pdf'" "unloaded ?N pdf'"
      "set (obj_numbers pdf') =
         set (obj_numbers (pdfioStreamClose pdf1)) \<union> (\<lambda>s. s - 1001) ` set [1002..2001]"
      "pdf_errors pdf' = pdf_errors (pdfioStreamClose pdf1)"
      "pdf_streams pdf' = pdf_streams (pdfioStreamClose pdf1)"
      "pdf_trailer pdf' = pdf_trailer (pdfioStreamClose pdf1)"
      "pdf_version pdf' = pdf_version (pdfioStreamClose pdf1)"
    by auto
  have img: "(\<lambda>s. s - 1001) ` {1002..2001} = {1..1000 :: int}"
  proof (intro equalityI subsetI)
    fix k :: int assume "k \<in> {1..1000}"
    then have "k = (k + 1001) - 1001" "k + 1001 \<in> {1002..2001}" by simp_all
    then show "k \<in> (\<lambda>s. s - 1001) ` {1002..2001}" by (rule image_eqI)
  qed auto
  have body: "xref_stream_body full_queue_file pdf obj full_queue_dict = Some (True, pdf')"
    by (simp add: xref_stream_body_def full_queue_dict_facts bytes pass ld)
  have fr: "pdf_errors pdf' = pdf_errors pdf" "pdf_streams pdf' = pdf_streams pdf"
    "pdf_trailer pdf' = pdf_trailer pdf" "pdf_version pdf' = pdf_version pdf"
    using p'(4-7) p1(4-7) by (simp_all add: pdfioStreamClose_def stream_opened_def)
  from body p'(1,2,3) p1(3) img fr show ?thesis
    by (intro exI [of _ pdf']) simp
qed


lemma full_queue_file_facts:
  "x_open full_queue_file"
  "x_gets full_queue_file 0 = Some (''%PDF-1.5'', 9)"
  "\<not> bad_header ''%PDF-1.5''"
  "\<not> length (x_tail full_queue_file) < 32"
  "map_option (\<lambda>ptr. fst (strtol (drop 9 ptr)))
     (strstr (takeWhile (\<lambda>c. c \<noteq> CHR 0x00) (take 32 (x_tail full_queue_file))) ''startxref'') =
     Some 30000"
  "x_seek full_queue_file 30000 = 30000"
  "x_gets full_queue_file 30000 = Some (''3000 0 obj'', 30011)"
  "is_obj_line ''3000 0 obj''"
  "strtoimax ''3000 0 obj'' = (3000, '' 0 obj'')"
  "strtol '' 0 obj'' = (0, '' obj'')"
  "int_cast 0 = 0" "ushort_cast 0 = 0" "size_t_cast 3000 = 3000"
  "dropWhile isspace '' obj'' = ''obj''" "isspace CHR '' ''" "\<not> isspace CHR ''o''"
  "x_value full_queue_file 30011 = Some (VDict full_queue_dict, 30100)"
  "x_token full_queue_file 30100 = Some (''stream'', 30106)"
  "x_flush full_queue_file 30106 = 30107"
  by code_simp+

lemma full_queue_section:
  assumes e: "pdf_heap pdf = []" "pdf_objs pdf = []"
  shows "\<exists>pdf'. load_xref_section fuel full_queue_file pdf 30000 =
                   Some (pdf', Some full_queue_dict) \<and>
                 index_ok pdf' \<and> unloaded {2003, 2004} pdf' \<and>
                 set (obj_numbers pdf') = {3000} \<union> {1002..2004} \<union> {1..1000} \<and>
                 pdf_errors pdf' = pdf_errors pdf \<and> pdf_streams pdf' = pdf_streams pdf \<and>
                 pdf_trailer pdf' = pdf_trailer pdf \<and> pdf_version pdf' = pdf_version pdf"
proof -
  let ?pdf1 = "pdf\<lparr>pdf_heap := [\<lparr>obj_number = 3000, obj_generation = 0, obj_offset = 30000,
                                       obj_stream_offset = 0, obj_value = VNone\<rparr>],
                      pdf_objs := [0], pdf_pos := 30011\<rparr>"
  let ?pdfB = "set_stream_offset
                 (set_value
                    (pdf\<lparr>pdf_heap := [\<lparr>obj_number = 3000, obj_generation = 0,
                                        obj_offset = 30000, obj_stream_offset = 0,
                                        obj_value = VNone\<rparr>],
                         pdf_objs := [0], pdf_pos := 30107\<rparr>)
                    0 (VDict full_queue_dict)) 0 30107"
  have ao: "add_obj (pdf\<lparr>pdf_pos := 30011\<rparr>) 3000 0 30000 = (0, ?pdf1)"
    by (simp add: add_obj_def Let_def e)
  have B: "obj_number (pdf_heap ?pdfB ! 0) = 3000" "set (obj_numbers ?pdfB) = {3000}"
    "index_ok ?pdfB" "unloaded {2003, 2004} ?pdfB"
    by (simp_all add: set_value_def set_stream_offset_def obj_numbers_def number_at_def
          index_ok_def unloaded_def)
  from full_queue_body [OF B] obtain pdf' where
    body: "xref_stream_body full_queue_file ?pdfB 0 full_queue_dict = Some (True, pdf')"
    and p': "index_ok pdf'" "unloaded {2003, 2004} pdf'"
      "set (obj_numbers pdf') = {3000} \<union> {1002..2004} \<union> {1..1000}"
      "pdf_errors pdf' = pdf_errors ?pdfB" "pdf_streams pdf' = pdf_streams ?pdfB"
      "pdf_trailer pdf' = pdf_trailer ?pdfB" "pdf_version pdf' = pdf_version ?pdfB"
    by blast
  have sec: "load_xref_section fuel full_queue_file pdf 30000 = Some (pdf', Some full_queue_dict)"
    by (simp add: load_xref_section_def load_xref_stream_def full_queue_file_facts ao body)
  have fr: "pdf_errors ?pdfB = pdf_errors pdf" "pdf_streams ?pdfB = pdf_streams pdf"
    "pdf_trailer ?pdfB = pdf_trailer pdf" "pdf_version ?pdfB = pdf_version pdf"
    by (simp_all add: set_value_def set_stream_offset_def)
  from sec p' fr show ?thesis
    by (intro exI [of _ pdf']) simp
qed


lemma find_fields [simp]:
  "pdfioFileFindObject (pdf\<lparr>pdf_trailer := t\<rparr>) k = pdfioFileFindObject pdf k"
  "pdfioFileFindObject (pdf\<lparr>pdf_root := r, pdf_info := i, pdf_encrypt := c,
                            pdf_id_array := d\<rparr>) k = pdfioFileFindObject pdf k"
  by (simp_all add: pdfioFileFindObject_def)

lemma get_dict_fields [simp]:
  "pdfioObjGetDict E (pdf\<lparr>pdf_trailer := t\<rparr>) a = pdfioObjGetDict E pdf a"
  "pdfioObjGetDict E (pdf\<lparr>pdf_root := r, pdf_info := i, pdf_encrypt := c,
                           pdf_id_array := d\<rparr>) a = pdfioObjGetDict E pdf a"
  by (simp_all add: pdfioObjGetDict_def)

lemma find_unloaded:
  assumes ok: "index_ok pdf" and un: "unloaded N pdf"
    and f: "pdfioFileFindObject pdf k = Some a" and k: "k \<in> N"
  shows "obj_number (pdf_heap pdf ! a) = k \<and> obj_value (pdf_heap pdf ! a) = VNone"
proof -
  from find_Some [OF f] have a: "a \<in> set (pdf_objs pdf)" "obj_number (pdf_heap pdf ! a) = k"
    by simp_all
  from ok a(1) have "a < length (pdf_heap pdf)" by (simp add: index_ok_def)
  then have "pdf_heap pdf ! a \<in> set (pdf_heap pdf)" by simp
  with un a(2) k show ?thesis by (auto simp: unloaded_def)
qed

lemma full_queue_tree_facts:
  "map_of full_queue_catalog ''Pages'' = Some (VIndirect 2004 0)"
  "pdfioDictGetName full_queue_pages ''Type'' = Some ''Pages''"
  "pdfioDictGetArray full_queue_pages ''Kids'' = Some []"
  by code_simp+

lemma full_queue_open:
  "\<exists>pdf. pdfioFileOpen (Suc fuel) full_queue_file = Some (Handle pdf) \<and>
         pdf_errors pdf = [] \<and> pdf_streams pdf = 0 \<and>
         pdfioFileFindObject pdf 1000 \<noteq> None \<and>
         pdfioFileFindObject pdf 1001 = None \<and>
         pdfioFileFindObject pdf 2002 \<noteq> None"
proof -
  let ?pdf0 = "calloc_file\<lparr>pdf_version := Some ''1.5''\<rparr>"
  have e: "pdf_heap ?pdf0 = []" "pdf_objs ?pdf0 = []"
    by (simp_all add: calloc_file_def)
  from full_queue_section [OF e, of "Suc fuel"] obtain pdf1 where
    sec: "load_xref_section (Suc fuel) full_queue_file ?pdf0 30000 =
            Some (pdf1, Some full_queue_dict)"
    and ok: "index_ok pdf1" and un: "unloaded {2003, 2004} pdf1"
    and nums: "set (obj_numbers pdf1) = {3000} \<union> {1002..2004} \<union> {1..1000}"
    and fr: "pdf_errors pdf1 = pdf_errors ?pdf0" "pdf_streams pdf1 = pdf_streams ?pdf0"
      "pdf_trailer pdf1 = pdf_trailer ?pdf0"
    by blast
  from fr have fr': "pdf_errors pdf1 = []" "pdf_streams pdf1 = 0" "pdf_trailer pdf1 = None"
    by (simp_all add: calloc_file_def)
  let ?pdfT = "pdf1\<lparr>pdf_trailer := Some full_queue_dict\<rparr>"
  have chain: "load_xref_chain (Suc fuel) full_queue_file ?pdf0 30000 = Some (True, ?pdfT)"
    by (simp add: sec full_queue_dict_facts save_trailer_def fr')
  from nums obtain r where r: "pdfioFileFindObject pdf1 2003 = Some r"
    using find_None [OF ok, of 2003] by (cases "pdfioFileFindObject pdf1 2003") auto
  from nums obtain g where g: "pdfioFileFindObject pdf1 2004 = Some g"
    using find_None [OF ok, of 2004] by (cases "pdfioFileFindObject pdf1 2004") auto
  from find_unloaded [OF ok un r] have cr: "obj_number (pdf_heap pdf1 ! r) = 2003"
    "obj_value (pdf_heap pdf1 ! r) = VNone" by simp_all
  from find_unloaded [OF ok un g] have cg: "obj_number (pdf_heap pdf1 ! g) = 2004"
    "obj_value (pdf_heap pdf1 ! g) = VNone" by simp_all
  have dr: "pdfioObjGetDict full_queue_file pdf1 r = Some full_queue_catalog"
    by (simp add: pdfioObjGetDict_def cr full_queue_file_def)
  have dg: "pdfioObjGetDict full_queue_file pdf1 g = Some full_queue_pages"
    by (simp add: pdfioObjGetDict_def cg full_queue_file_def)
  let ?pdfR = "?pdfT\<lparr>pdf_root := Some r, pdf_info := None, pdf_encrypt := None,
                       pdf_id_array := None\<rparr>"
  have pages: "load_pages (Suc fuel) full_queue_file ?pdfR (Some g) = Some (True, ?pdfR)"
    by (simp add: dg full_queue_tree_facts)
  have fin: "load_xref_finish (Suc fuel) full_queue_file ?pdfT = Some (True, ?pdfR)"
    unfolding load_xref_finish_def
    by (simp add: pdfioDictGetObject_def value_object_def full_queue_dict_facts
          full_queue_tree_facts r g dr pages del: load_pages.simps)
  from full_queue_file_facts(5) obtain ptr where
    ptr: "strstr (takeWhile (\<lambda>c. c \<noteq> CHR 0x00) (take 32 (x_tail full_queue_file)))
            ''startxref'' = Some ptr"
    and off: "fst (strtol (drop 9 ptr)) = 30000"
    by auto
  have op: "pdfioFileOpen (Suc fuel) full_queue_file = Some (Handle ?pdfR)"
    unfolding pdfioFileOpen_def load_xref_def
    by (simp add: full_queue_file_facts(1-4) ptr off chain fin
          del: load_xref_chain.simps load_pages.simps)
  have found: "pdfioFileFindObject ?pdfR 1000 \<noteq> None" "pdfioFileFindObject ?pdfR 1001 = None"
    "pdfioFileFindObject ?pdfR 2002 \<noteq> None"
    by (simp_all add: find_None [OF ok] nums)
  from op found fr' show ?thesis
    by (intro exI [of _ ?pdfR]) simp
qed

text \<open>In \<open>full_queue_file\<close> the loop over the records of the cross-reference stream ends
  with the 1000 parents 1002 to 2001 in the queue: the parent 2002 of object 1001 is not
  queued.\<close>

lemma full_queue_discard:
  "\<exists>pdf'. xref_records full_queue_file 1 2 0 full_queue_bytes buffer 1 []
            (snd (add_obj calloc_file 3000 0 30000)) = Some (True, [1002..2001], pdf')"
proof -
  let ?pdf = "snd (add_obj calloc_file 3000 0 30000)"
  have "obj_numbers ?pdf = [3000]" "pdf_objs ?pdf = [0]" "length (pdf_heap ?pdf) = 1"
    by (simp_all add: add_obj_def Let_def calloc_file_def obj_numbers_def number_at_def)
  then have "set (obj_numbers ?pdf) = {3000}" "index_ok ?pdf"
    by (simp_all add: index_ok_def)
  moreover have "unloaded {} ?pdf" by (simp add: unloaded_def)
  ultimately show ?thesis
    using full_queue_pass [of ?pdf "{}" full_queue_file buffer] by blast
qed

text \<open>
  C10, as stated: a compressed object whose parent is dropped because the queue is full is
  left in the index as a placeholder. With the queue full (the parents 1 to 1000), the
  record of type 2 for object 7 in the object stream 2000 leaves the queue and the file as
  they are: nothing is reported, and there is no record for object 7.
\<close>

theorem C10_no_record_for_discarded_entry:
  "xref_record two_rev 1 2 0 [2, 7, 208] 7 [1..1000] calloc_file =
     Some (True, [1..1000], calloc_file) \<and>
   pdfioFileFindObject calloc_file 7 = None \<and> length [1..1000 :: int] = 1000"
  by code_simp

text \<open>
  C10, amended. The queue that a pass over a cross-reference stream returns holds no
  parent twice and at most 1000 parents. A record of type 2 for an object that is not in
  the index, in a parent that is not in the index either, lets the loop go on, changes
  nothing in the file (no report, no record for the object) and queues the parent, unless
  the parent is queued already or 1000 parents are queued: then the queue stays as it is.
  After a record that lets the loop go on, the loop reads the next record with the object
  number one higher. And the open can succeed after a parent was dropped: in
  \<open>full_queue_file\<close> the loop ends with the parents 1002 to 2001 in the queue and without
  the parent 2002 of object 1001; the open returns a file and reports nothing, object 1000
  and the object stream 2002 have records, and object 1001 has none.
\<close>

theorem C10_queue_of_parents:
  "(\<forall>ok sobjs' pdf'.
      xref_records E w0 w1 w2 st buffer number [] pdf = Some (ok, sobjs', pdf') \<longrightarrow>
      distinct sobjs' \<and> length sobjs' \<le> 1000) \<and>
   (\<forall>parent generation.
      w0 > 0 \<and> buffer_at buffer 0 = Some 2 \<and>
      xref_offset_field buffer w0 w1 = Some parent \<and>
      xref_generation_field buffer ((w0 + w1) mod 2 ^ 64) w2 = Some generation \<and>
      pdfioFileFindObject pdf (size_t_cast number) = None \<and>
      pdfioFileFindObject pdf parent = None \<longrightarrow>
      xref_record E w0 w1 w2 buffer number sobjs pdf =
        Some (True, enqueue_sobj sobjs parent, pdf) \<and>
      (parent \<in> set sobjs \<or> length sobjs \<ge> 1000 \<longrightarrow> enqueue_sobj sobjs parent = sobjs) \<and>
      (parent \<notin> set sobjs \<and> length sobjs < 1000 \<longrightarrow>
         enqueue_sobj sobjs parent = sobjs @ [parent])) \<and>
   (\<forall>sobjs' pdf'.
      take (nat (w_total w0 w1 w2)) st \<noteq> [] \<and>
      xref_record E w0 w1 w2
        (take (nat (w_total w0 w1 w2)) st @
         drop (length (take (nat (w_total w0 w1 w2)) st)) buffer) number sobjs pdf =
        Some (True, sobjs', pdf') \<longrightarrow>
      xref_records E w0 w1 w2 st buffer number sobjs pdf =
        xref_records E w0 w1 w2 (drop (nat (w_total w0 w1 w2)) st)
          (take (nat (w_total w0 w1 w2)) st @
           drop (length (take (nat (w_total w0 w1 w2)) st)) buffer) (number + 1) sobjs' pdf') \<and>
   (\<exists>pdf'. xref_records full_queue_file 1 2 0 full_queue_bytes buffer0 1 []
             (snd (add_obj calloc_file 3000 0 30000)) = Some (True, [1002..2001], pdf')) \<and>
   (\<exists>pdf'. pdfioFileOpen (Suc fuel) full_queue_file = Some (Handle pdf') \<and>
           pdf_errors pdf' = [] \<and> pdf_streams pdf' = 0 \<and>
           pdfioFileFindObject pdf' 1000 \<noteq> None \<and>
           pdfioFileFindObject pdf' 1001 = None \<and>
           pdfioFileFindObject pdf' 2002 \<noteq> None)"
proof (intro conjI allI impI)
  fix ok sobjs' pdf'
  assume "xref_records E w0 w1 w2 st buffer number [] pdf = Some (ok, sobjs', pdf')"
  from xref_records_queue_ok [OF this] have "queue_ok sobjs'"
    by (simp add: queue_ok_def)
  then show "distinct sobjs'" "length sobjs' \<le> 1000"
    by (simp_all add: queue_ok_def)
next
  fix parent generation
  assume "w0 > 0 \<and> buffer_at buffer 0 = Some 2 \<and>
      xref_offset_field buffer w0 w1 = Some parent \<and>
      xref_generation_field buffer ((w0 + w1) mod 2 ^ 64) w2 = Some generation \<and>
      pdfioFileFindObject pdf (size_t_cast number) = None \<and>
      pdfioFileFindObject pdf parent = None"
  then show "xref_record E w0 w1 w2 buffer number sobjs pdf =
               Some (True, enqueue_sobj sobjs parent, pdf)"
    by (simp add: xref_record_def)
next
  fix parent generation
  assume "parent \<in> set sobjs \<or> length sobjs \<ge> 1000"
  then show "enqueue_sobj sobjs parent = sobjs"
    by (auto simp: enqueue_sobj_def)
next
  fix parent generation
  assume "parent \<notin> set sobjs \<and> length sobjs < 1000"
  then show "enqueue_sobj sobjs parent = sobjs @ [parent]"
    by (simp add: enqueue_sobj_def)
next
  fix sobjs' pdf'
  assume "take (nat (w_total w0 w1 w2)) st \<noteq> [] \<and>
      xref_record E w0 w1 w2
        (take (nat (w_total w0 w1 w2)) st @
         drop (length (take (nat (w_total w0 w1 w2)) st)) buffer) number sobjs pdf =
        Some (True, sobjs', pdf')"
  then show "xref_records E w0 w1 w2 st buffer number sobjs pdf =
        xref_records E w0 w1 w2 (drop (nat (w_total w0 w1 w2)) st)
          (take (nat (w_total w0 w1 w2)) st @
           drop (length (take (nat (w_total w0 w1 w2)) st)) buffer) (number + 1) sobjs' pdf'"
    by (subst xref_records.simps) simp
next
  show "\<exists>pdf'. xref_records full_queue_file 1 2 0 full_queue_bytes buffer0 1 []
             (snd (add_obj calloc_file 3000 0 30000)) = Some (True, [1002..2001], pdf')"
    by (rule full_queue_discard)
next
  show "\<exists>pdf'. pdfioFileOpen (Suc fuel) full_queue_file = Some (Handle pdf') \<and>
           pdf_errors pdf' = [] \<and> pdf_streams pdf' = 0 \<and>
           pdfioFileFindObject pdf' 1000 \<noteq> None \<and>
           pdfioFileFindObject pdf' 1001 = None \<and>
           pdfioFileFindObject pdf' 2002 \<noteq> None"
    by (rule full_queue_open)
qed


theorem C10_queue_of_parents_witness:
  "(0::int) < 1 \<and> buffer_at [2, 7, 208] 0 = Some 2 \<and>
   xref_offset_field [2, 7, 208] 1 2 = Some 2000 \<and>
   xref_generation_field [2, 7, 208] ((1 + 2) mod 2 ^ 64) 0 = Some 0 \<and>
   pdfioFileFindObject calloc_file (size_t_cast 7) = None \<and>
   pdfioFileFindObject calloc_file 2000 = None \<and>
   length [1..1000 :: int] \<ge> 1000 \<and>
   xref_record two_rev 1 2 0 [2, 7, 208] 7 [1..1000] calloc_file =
     Some (True, [1..1000], calloc_file)"
proof -
  have h: "(0::int) < 1" "buffer_at [2, 7, 208] 0 = Some 2"
    "xref_offset_field [2, 7, 208] 1 2 = Some 2000"
    "xref_generation_field [2, 7, 208] ((1 + 2) mod 2 ^ 64) 0 = Some 0"
    "pdfioFileFindObject calloc_file (size_t_cast 7) = None"
    "pdfioFileFindObject calloc_file 2000 = None"
    by code_simp+
  have full: "length [1..1000 :: int] \<ge> 1000"
    by code_simp
  from C10_queue_of_parents [of two_rev 1 2 0 "[]" "[2, 7, 208]" 7 calloc_file "[1..1000]"] h
  have "xref_record two_rev 1 2 0 [2, 7, 208] 7 [1..1000] calloc_file =
          Some (True, enqueue_sobj [1..1000] 2000, calloc_file) \<and>
        (2000 \<in> set [1..1000 :: int] \<or> length [1..1000 :: int] \<ge> 1000 \<longrightarrow>
           enqueue_sobj [1..1000] 2000 = [1..1000])"
    by blast
  with full have "xref_record two_rev 1 2 0 [2, 7, 208] 7 [1..1000] calloc_file =
                    Some (True, [1..1000], calloc_file)"
    by simp
  with h full show ?thesis
    by simp
qed

end
